theory Spec2Isabelle
  imports Main "HOL-Library.Multiset" "HOL-Library.Sublist"
begin

section \<open>Python values used by the two programs\<close>

text \<open>
  The programs \<^verbatim>\<open>swinsian_agent.py\<close> (command line) and \<^verbatim>\<open>swinsian_ui.py\<close>
  (window) share their core functions almost verbatim. A Python \<^verbatim>\<open>str\<close> is a sequence
  of Unicode code points, so it is modelled as a list of naturals; \<open>U\<close> reads an ASCII
  literal as such a list. Python's \<^verbatim>\<open>int\<close> is unbounded and is modelled by \<open>int\<close>.
  What the programs print or log has no part in what they return or send and is left out.
  Where the two programs differ (the message of an exception, the shuffle flag) the
  difference is a parameter or a second definition.
\<close>

type_synonym ustr = "nat list"

definition U :: "string \<Rightarrow> ustr" where
  "U s = map of_char s"

text \<open>\<^verbatim>\<open>str.isspace\<close> for one code point: the white space of the Unicode database.\<close>

definition isspace :: "nat \<Rightarrow> bool" where
  "isspace c \<longleftrightarrow>
     (9 \<le> c \<and> c \<le> 13) \<or> (28 \<le> c \<and> c \<le> 32) \<or> c = 133 \<or> c = 160 \<or> c = 5760 \<or>
     (8192 \<le> c \<and> c \<le> 8202) \<or> c = 8232 \<or> c = 8233 \<or> c = 8239 \<or> c = 8287 \<or> c = 12288"

text \<open>\<^verbatim>\<open>s.strip()\<close>: leading and trailing white space removed.\<close>

definition strip :: "ustr \<Rightarrow> ustr" where
  "strip s = rev (dropWhile isspace (rev (dropWhile isspace s)))"

text \<open>\<^verbatim>\<open>sep.join(parts)\<close>.\<close>

fun join :: "ustr \<Rightarrow> ustr list \<Rightarrow> ustr" where
  "join sep [] = []"
| "join sep [x] = x"
| "join sep (x # y # ys) = x @ sep @ join sep (y # ys)"

text \<open>
  \<^verbatim>\<open>raw.split("~~~")\<close>: the pieces between the leftmost, non-overlapping occurrences
  of the three-tilde delimiter (code point 126). The first argument accumulates the
  current piece in reverse.
\<close>

fun split_tildes :: "ustr \<Rightarrow> ustr \<Rightarrow> ustr list" where
  "split_tildes acc (a # b # c # cs) =
     (if a = 126 \<and> b = 126 \<and> c = 126 then rev acc # split_tildes [] cs
      else split_tildes (a # acc) (b # c # cs))"
| "split_tildes acc cs = [rev acc @ cs]"

text \<open>\<^verbatim>\<open>str(i)\<close> for an integer: decimal digits, with a minus sign for a negative one.\<close>

fun digits_of :: "nat \<Rightarrow> ustr" where
  "digits_of n = (if n < 10 then [48 + n] else digits_of (n div 10) @ [48 + n mod 10])"

declare digits_of.simps [simp del]

definition str_of_int :: "int \<Rightarrow> ustr" where
  "str_of_int i = (if i < 0 then 45 # digits_of (nat (- i)) else digits_of (nat i))"

text \<open>The exceptions the modelled functions let escape.\<close>

datatype error =
    RuntimeError ustr \<comment> \<open>raised by \<^verbatim>\<open>run_applescript\<close>, with its message\<close>
  | IntValueError ustr \<comment> \<open>the \<^verbatim>\<open>ValueError\<close> of \<^verbatim>\<open>int(s)\<close>, with the operand \<open>s\<close>\<close>
  | UnexpectedFormat ustr \<comment> \<open>the \<^verbatim>\<open>ValueError\<close> raised by the reply parser, with its message\<close>
  | JSONDecodeError \<comment> \<open>raised by \<^verbatim>\<open>json.loads\<close>\<close>
  | DecoderAborted \<comment> \<open>any other exception that \<^verbatim>\<open>json.loads\<close> lets escape\<close>
  | AttributeError \<comment> \<open>\<^verbatim>\<open>data.get\<close> on a value that is not a dictionary\<close>
  | ServiceError \<comment> \<open>any exception of the hosted model's client\<close>
  | UnicodeEncodeError \<comment> \<open>\<^verbatim>\<open>subprocess.run\<close> on an argument with a lone surrogate\<close>
  | EmbeddedNul \<comment> \<open>the \<^verbatim>\<open>ValueError\<close> of \<^verbatim>\<open>subprocess.run\<close> on an argument with a null\<close>
  | SubprocessError \<comment> \<open>any other exception of \<^verbatim>\<open>subprocess.run\<close>\<close>

section \<open>The scripting bridge\<close>

text \<open>
  \<^verbatim>\<open>run_applescript\<close> calls \<^verbatim>\<open>subprocess.run(["osascript", "-e", script], ...)\<close> and
  reads the return code, the standard output and the standard error. The call is a
  parameter: a transition on a world \<open>'w\<close> that answers a script either with an exception of
  the call itself or with these three values. The state threaded through the model is the
  world together with the list of the scripts handed to the call so far, oldest first.
  An exception of the call escapes as it is; a non-zero return code raises
  \<^verbatim>\<open>RuntimeError\<close>. The command-line program prefixes the message with
  \<^verbatim>\<open>AppleScript error: \<close>, the window program does not, hence \<open>pre\<close>.
\<close>

type_synonym 'w osascript = "'w \<Rightarrow> ustr \<Rightarrow> (error + int \<times> ustr \<times> ustr) \<times> 'w"

type_synonym 'w st = "'w \<times> ustr list"

definition run_applescript ::
  "ustr \<Rightarrow> 'w osascript \<Rightarrow> ustr \<Rightarrow> 'w st \<Rightarrow> (error + ustr) \<times> 'w st" where
  "run_applescript pre osa script s =
     (case s of (w, issued) \<Rightarrow>
        (case osa w script of
           (Inl e, w') \<Rightarrow> (Inl e, (w', issued @ [script]))
         | (Inr (returncode, out, err), w') \<Rightarrow>
             (if returncode \<noteq> 0 then Inl (RuntimeError (pre @ strip err)) else Inr (strip out),
              (w', issued @ [script]))))"

text \<open>
  What is known of the call before the process starts: the interpreter encodes the
  arguments for the operating system, which fails with \<^verbatim>\<open>UnicodeEncodeError\<close> on a
  surrogate code point outside the range that the file system encoding escapes, and then
  refuses an argument with a null character with \<^verbatim>\<open>ValueError\<close>. Only then the process
  \<open>proc\<close> runs, which may fail in its own ways. The world is untouched by a refused call.
\<close>

definition unencodable :: "nat \<Rightarrow> bool" where
  "unencodable c \<longleftrightarrow> (55296 \<le> c \<and> c < 56448) \<or> (56575 < c \<and> c \<le> 57343)"

definition argv_error :: "ustr \<Rightarrow> error option" where
  "argv_error script =
     (if list_ex unencodable script then Some UnicodeEncodeError
      else if list_ex (\<lambda>c. c = 0) script then Some EmbeddedNul
      else None)"

definition subprocess_run :: "'w osascript \<Rightarrow> 'w osascript" where
  "subprocess_run proc w script =
     (case argv_error script of Some e \<Rightarrow> (Inl e, w) | None \<Rightarrow> proc w script)"

text \<open>Sequencing of calls that may raise: the first exception ends the sequence.\<close>

definition bind_st ::
  "('s \<Rightarrow> (error + 'a) \<times> 's) \<Rightarrow> ('a \<Rightarrow> 's \<Rightarrow> (error + 'b) \<times> 's) \<Rightarrow> 's \<Rightarrow> (error + 'b) \<times> 's" where
  "bind_st m f s = (case m s of (Inl e, s') \<Rightarrow> (Inl e, s') | (Inr a, s') \<Rightarrow> f a s')"

text \<open>
  A bridge for concrete runs: its world is the list of the answers still to be given,
  handed out in order; once they are used up every script succeeds with empty output.
\<close>

definition canned :: "(int \<times> ustr \<times> ustr) list osascript" where
  "canned w script = (case w of [] \<Rightarrow> (Inr (0, [], []), []) | r # rs \<Rightarrow> (Inr r, rs))"

section \<open>Library reader\<close>

record track =
  track_id :: int
  title :: ustr
  artist :: ustr
  album :: ustr
  genre :: ustr
  year :: ustr
  rating :: ustr
  plays :: ustr

definition fetch_script :: "ustr \<Rightarrow> ustr" where
  \<open>fetch_script prop =
     U ''\<newline>tell application "Swinsian"\<newline>    set vals to '' @ prop @
     U '' of every track\<newline>    set AppleScript\'s text item delimiters to "~~~"\<newline>'' @
     U ''    set output to vals as string\<newline>'' @
     U ''    set AppleScript\'s text item delimiters to ""\<newline>    return output\<newline>end tell\<newline>''\<close>

definition fetch_property ::
  "ustr \<Rightarrow> 'w osascript \<Rightarrow> ustr \<Rightarrow> 'w st \<Rightarrow> (error + ustr list) \<times> 'w st" where
  "fetch_property pre osa prop =
     bind_st (run_applescript pre osa (fetch_script prop))
       (\<lambda>raw s. (Inr (if raw = [] then [] else split_tildes [] raw), s))"

text \<open>\<^verbatim>\<open>xs[i].strip() if i < len(xs) else ""\<close>\<close>

definition field_at :: "ustr list \<Rightarrow> nat \<Rightarrow> ustr" where
  "field_at xs i = (if i < length xs then strip (xs ! i) else [])"

text \<open>
  The loop \<^verbatim>\<open>for i, name in enumerate(names)\<close>, from index \<open>i\<close> on: a name that is
  empty after stripping is skipped, every other one appends a record whose \<^verbatim>\<open>id\<close> is the
  loop index \<open>i\<close>.
\<close>

fun collect_tracks ::
  "nat \<Rightarrow> ustr list \<Rightarrow> ustr list \<Rightarrow> ustr list \<Rightarrow> ustr list \<Rightarrow> ustr list \<Rightarrow> ustr list \<Rightarrow> ustr list
     \<Rightarrow> track list" where
  "collect_tracks i [] artists albums genres years ratings playss = []"
| "collect_tracks i (name # names) artists albums genres years ratings playss =
     (let name' = strip name in
      if name' = [] then collect_tracks (Suc i) names artists albums genres years ratings playss
      else \<lparr>track_id = int i, title = name',
             artist = field_at artists i, album = field_at albums i,
             genre = field_at genres i, year = field_at years i,
             rating = field_at ratings i, plays = field_at playss i\<rparr>
           # collect_tracks (Suc i) names artists albums genres years ratings playss)"

definition get_library_tracks :: "ustr \<Rightarrow> 'w osascript \<Rightarrow> 'w st \<Rightarrow> (error + track list) \<times> 'w st" where
  "get_library_tracks pre osa =
     bind_st (fetch_property pre osa (U ''name'')) (\<lambda>names.
     bind_st (fetch_property pre osa (U ''artist'')) (\<lambda>artists.
     bind_st (fetch_property pre osa (U ''album'')) (\<lambda>albums.
     bind_st (fetch_property pre osa (U ''genre'')) (\<lambda>genres.
     bind_st (fetch_property pre osa (U ''year'')) (\<lambda>years.
     bind_st (fetch_property pre osa (U ''rating'')) (\<lambda>ratings.
     bind_st (fetch_property pre osa (U ''play count'')) (\<lambda>playss s.
       (Inr (collect_tracks 0 names artists albums genres years ratings playss), s))))))))"

text \<open>
  \<^verbatim>\<open>id_to_track = {t["id"]: t for t in all_tracks}\<close>: the dictionary is filled from left
  to right, so a later record replaces an earlier one with the same id.
\<close>

definition id_to_track :: "track list \<Rightarrow> (int \<rightharpoonup> track)" where
  "id_to_track all_tracks = fold (\<lambda>t m. m(track_id t \<mapsto> t)) all_tracks Map.empty"

section \<open>Play counts and random order\<close>

text \<open>
  \<^verbatim>\<open>int(s)\<close> on a string, as CPython reads it. Code points from 128 on are first mapped
  to ASCII: white space to a blank, a decimal digit of the Unicode database to its ASCII
  digit, anything else makes the literal invalid. The table of the decimal digits beyond
  ASCII belongs to the interpreter and is the parameter \<open>dec\<close>. The ASCII text is then:
  blanks, an optional sign, decimal digits with single underscores between them, blanks.
  A literal of more than \<open>int_max_str_digits\<close> digits is refused as well (the
  interpreter's default limit).
\<close>

definition ascii_space :: "nat \<Rightarrow> bool" where
  "ascii_space c \<longleftrightarrow> (9 \<le> c \<and> c \<le> 13) \<or> c = 32"

definition is_digit :: "nat \<Rightarrow> bool" where
  "is_digit c \<longleftrightarrow> 48 \<le> c \<and> c \<le> 57"

definition to_ascii :: "(nat \<Rightarrow> nat option) \<Rightarrow> nat \<Rightarrow> nat option" where
  "to_ascii dec c =
     (if c < 128 then Some c
      else if isspace c then Some 32
      else (case dec c of None \<Rightarrow> None | Some d \<Rightarrow> Some (48 + d)))"

definition int_max_str_digits :: nat where
  "int_max_str_digits = 4300"

text \<open>The digits and underscores of a literal: no underscore first, last or doubled.\<close>

fun underscores_ok :: "ustr \<Rightarrow> bool" where
  "underscores_ok [] = False"
| "underscores_ok [c] = (c \<noteq> 95)"
| "underscores_ok (c # d # cs) = (c \<noteq> 95 \<and> (if d = 95 then underscores_ok cs else underscores_ok (d # cs)))"

definition decimal_value :: "ustr \<Rightarrow> int" where
  "decimal_value ds = foldl (\<lambda>v c. 10 * v + int (c - 48)) 0 ds"

definition py_int :: "(nat \<Rightarrow> nat option) \<Rightarrow> ustr \<Rightarrow> int option" where
  "py_int dec s =
     (case those (map (to_ascii dec) s) of
        None \<Rightarrow> None
      | Some a \<Rightarrow>
          (let b = dropWhile ascii_space a;
               negative = (b \<noteq> [] \<and> hd b = 45);
               c = (if b \<noteq> [] \<and> (hd b = 45 \<or> hd b = 43) then tl b else b);
               body = takeWhile (\<lambda>x. is_digit x \<or> x = 95) c;
               rest = dropWhile (\<lambda>x. is_digit x \<or> x = 95) c;
               ds = filter is_digit body
           in if underscores_ok body \<and> list_all ascii_space rest \<and> length ds \<le> int_max_str_digits
              then Some (if negative then - decimal_value ds else decimal_value ds)
              else None))"

text \<open>The sort key \<^verbatim>\<open>int(x["plays"] or 0)\<close>: an empty string is falsy and gives 0.\<close>

definition play_key :: "(nat \<Rightarrow> nat option) \<Rightarrow> track \<Rightarrow> error + int" where
  "play_key dec x =
     (if plays x = [] then Inr 0
      else (case py_int dec (plays x) of None \<Rightarrow> Inl (IntValueError (plays x)) | Some k \<Rightarrow> Inr k))"

text \<open>The play count of a track whose key computes, for stating what the sort achieves.\<close>

definition key_of :: "(nat \<Rightarrow> nat option) \<Rightarrow> track \<Rightarrow> int" where
  "key_of dec x = (case play_key dec x of Inr k \<Rightarrow> k | Inl e \<Rightarrow> 0)"

text \<open>
  \<^verbatim>\<open>sorted(tracks, key=..., reverse=True)\<close>: the keys are computed from left to right
  and the first exception escapes; the sort is stable, and with \<^verbatim>\<open>reverse=True\<close> equal
  keys keep their original order, so it is the stable ascending sort on the negated key.
\<close>

fun keys_of :: "(nat \<Rightarrow> nat option) \<Rightarrow> track list \<Rightarrow> error + int list" where
  "keys_of dec [] = Inr []"
| "keys_of dec (x # xs) =
     (case play_key dec x of
        Inl e \<Rightarrow> Inl e
      | Inr k \<Rightarrow> (case keys_of dec xs of Inl e \<Rightarrow> Inl e | Inr ks \<Rightarrow> Inr (k # ks)))"

definition sorted_by_plays :: "(nat \<Rightarrow> nat option) \<Rightarrow> track list \<Rightarrow> error + track list" where
  "sorted_by_plays dec tracks =
     (case keys_of dec tracks of
        Inl e \<Rightarrow> Inl e
      | Inr ks \<Rightarrow> Inr (map snd (sort_key (\<lambda>(k, x). - k) (zip ks tracks))))"

text \<open>
  \<^verbatim>\<open>random.shuffle\<close> is the library's exchange loop
  \<^verbatim>\<open>for i in reversed(range(1, len(x))): j = randbelow(i + 1); x[i], x[j] = x[j], x[i]\<close>.
  The generator is the list of the raw draws still to come; \<^verbatim>\<open>randbelow(n)\<close> reduces the
  next draw below \<open>n\<close>, so every sequence of outcomes is the run of some generator.
\<close>

type_synonym rng = "nat list"

definition randbelow :: "nat \<Rightarrow> rng \<Rightarrow> nat \<times> rng" where
  "randbelow n g = (case g of [] \<Rightarrow> (0, []) | r # g' \<Rightarrow> (r mod n, g'))"

fun shuffle_from :: "nat \<Rightarrow> 'a list \<Rightarrow> rng \<Rightarrow> 'a list \<times> rng" where
  "shuffle_from 0 x g = (x, g)"
| "shuffle_from (Suc i) x g =
     (case randbelow (Suc (Suc i)) g of
        (j, g') \<Rightarrow> shuffle_from i (x[Suc i := x ! j, j := x ! Suc i]) g')"

definition shuffle :: "'a list \<Rightarrow> rng \<Rightarrow> 'a list \<times> rng" where
  "shuffle x g = shuffle_from (length x - 1) x g"

section \<open>Catalog encoder\<close>

definition MAX_TRACKS_FULL :: nat where
  "MAX_TRACKS_FULL = 1500"

definition MAX_TRACKS_COMPACT :: nat where
  "MAX_TRACKS_COMPACT = 4000"

text \<open>One line of the full catalog; 124 is the bar, 9733 the star and 9654 the play sign.\<close>

definition full_line :: "track \<Rightarrow> ustr" where
  "full_line t =
     str_of_int (track_id t) @ [124] @ title t @ [124] @ artist t @ [124] @ album t @ [124] @
     genre t @ [124] @ year t @ [124, 9733] @ rating t @ [124, 9654] @ plays t"

definition build_full_catalog :: "track list \<Rightarrow> ustr" where
  "build_full_catalog tracks = join [10] (map full_line tracks)"

definition compact_line :: "track \<Rightarrow> ustr" where
  "compact_line t = str_of_int (track_id t) @ [124] @ title t @ [124] @ artist t"

definition build_compact_catalog :: "track list \<Rightarrow> ustr" where
  "build_compact_catalog tracks = join [10] (map compact_line tracks)"

text \<open>
  The third branch of the size test in \<^verbatim>\<open>ask_claude_for_playlist\<close> and \<^verbatim>\<open>ask_claude\<close>:
  the tracks that replace the library when it has more than \<open>MAX_TRACKS_COMPACT\<close> entries.
\<close>

definition sample_tracks ::
  "(nat \<Rightarrow> nat option) \<Rightarrow> track list \<Rightarrow> rng \<Rightarrow> error + track list \<times> rng" where
  "sample_tracks dec tracks g =
     (case sorted_by_plays dec tracks of
        Inl e \<Rightarrow> Inl e
      | Inr by_plays \<Rightarrow>
          (let top = take (MAX_TRACKS_COMPACT div 2) by_plays;
               rest = drop (MAX_TRACKS_COMPACT div 2) by_plays
           in case shuffle rest g of
                (rest', g') \<Rightarrow> Inr (top @ take (MAX_TRACKS_COMPACT - length top) rest', g')))"

text \<open>
  The size test itself: the catalog text, its field descriptor, the tracks encoded and the
  generator afterwards.
\<close>

definition encode ::
  "(nat \<Rightarrow> nat option) \<Rightarrow> track list \<Rightarrow> rng \<Rightarrow> error + (ustr \<times> ustr \<times> track list) \<times> rng" where
  "encode dec tracks g =
     (let total = length tracks in
      if total \<le> MAX_TRACKS_FULL then
        Inr ((build_full_catalog tracks, U ''id|title|artist|album|genre|year|rating|plays'', tracks), g)
      else if total \<le> MAX_TRACKS_COMPACT then
        Inr ((build_compact_catalog tracks, U ''id|title|artist'', tracks), g)
      else
        (case sample_tracks dec tracks g of
           Inl e \<Rightarrow> Inl e
         | Inr (tracks', g') \<Rightarrow> Inr ((build_compact_catalog tracks', U ''id|title|artist'', tracks'), g')))"

text \<open>
  The lines of a text: the pieces between its line feeds (code point 10), none for the empty
  text. This is how the reader of a catalog counts its entries.
\<close>

fun split_lines :: "ustr \<Rightarrow> ustr \<Rightarrow> ustr list" where
  "split_lines acc [] = [rev acc]"
| "split_lines acc (c # cs) = (if c = 10 then rev acc # split_lines [] cs else split_lines (c # acc) cs)"

definition lines_of :: "ustr \<Rightarrow> ustr list" where
  "lines_of text = (if text = [] then [] else split_lines [] text)"

section \<open>Playlist materializer\<close>

text \<open>
  \<^verbatim>\<open>s.replace("\\", "\\\\").replace('"', '\\"')\<close>: every backslash (92) is doubled, then
  every double quote (34) gets a backslash in front.
\<close>

definition escape :: "ustr \<Rightarrow> ustr" where
  "escape s =
     concat (map (\<lambda>c. if c = 34 then [92, 34] else [c])
       (concat (map (\<lambda>c. if c = 92 then [92, 92] else [c]) s)))"

definition create_script :: "ustr \<Rightarrow> ustr" where
  \<open>create_script safe_name =
     U ''\<newline>tell application "Swinsian" to activate\<newline>delay 0.5\<newline>'' @
     U ''tell application "System Events"\<newline>    tell process "Swinsian"\<newline>'' @
     U ''        click menu item "New Playlist" of menu "File" of menu bar 1\<newline>'' @
     U ''        delay 0.5\<newline>        keystroke "'' @ safe_name @
     U ''"\<newline>        key code 36\<newline>    end tell\<newline>end tell''\<close>

definition batch_item :: "ustr \<Rightarrow> track \<Rightarrow> ustr" where
  \<open>batch_item safe_name t =
     U ''\<newline>        set found to (every track whose name is "'' @ escape (title t) @
     U ''" and artist is "'' @ escape (artist t) @ U ''")\<newline>'' @
     U ''        if (count of found) > 0 then add tracks {item 1 of found} to normal playlist "'' @
     safe_name @ U ''"''\<close>

definition batch_script :: "ustr \<Rightarrow> track list \<Rightarrow> ustr" where
  \<open>batch_script safe_name chunk =
     U ''tell application "Swinsian"\<newline>'' @ join [10] (map (batch_item safe_name) chunk) @
     U ''\<newline>end tell''\<close>

definition BATCH :: nat where
  "BATCH = 50"

text \<open>The slice \<^verbatim>\<open>selected[b * BATCH:(b + 1) * BATCH]\<close>.\<close>

definition chunk_at :: "track list \<Rightarrow> nat \<Rightarrow> track list" where
  "chunk_at selected b = take BATCH (drop (b * BATCH) selected)"

text \<open>
  The loop \<^verbatim>\<open>for b in range(batches)\<close> from batch \<open>b\<close> on, with \<open>k\<close> batches still to
  run: one script for each batch, and the first failing script ends the loop with its
  exception. The progress messages have no part in the result and are left out.
\<close>

fun add_batches ::
  "ustr \<Rightarrow> 'w osascript \<Rightarrow> ustr \<Rightarrow> track list \<Rightarrow> nat \<Rightarrow> nat \<Rightarrow> 'w st \<Rightarrow> (error + unit) \<times> 'w st" where
  "add_batches pre osa safe_name selected b 0 s = (Inr (), s)"
| "add_batches pre osa safe_name selected b (Suc k) s =
     (case run_applescript pre osa (batch_script safe_name (chunk_at selected b)) s of
        (Inl e, s') \<Rightarrow> (Inl e, s')
      | (Inr out, s') \<Rightarrow> add_batches pre osa safe_name selected (Suc b) k s')"

text \<open>
  \<^verbatim>\<open>selected = [id_to_track[i] for i in track_ids if i in id_to_track]\<close>, for a list of
  integers, as the signature \<^verbatim>\<open>track_ids: list[int]\<close> of the command-line program
  declares it and as the system prompt asks the model to answer.
\<close>

definition resolve :: "track list \<Rightarrow> int list \<Rightarrow> track list" where
  "resolve all_tracks track_ids = List.map_filter (id_to_track all_tracks) track_ids"

text \<open>
  What both programs do once \<^verbatim>\<open>selected\<close> has its final order: nothing but
  \<^verbatim>\<open>return 0\<close> when it is empty, else the script that creates the playlist, the batches,
  and \<^verbatim>\<open>return len(selected)\<close>. The number of batches is
  \<^verbatim>\<open>math.ceil(len(selected) / BATCH)\<close>.
\<close>

definition add_selected ::
  "ustr \<Rightarrow> 'w osascript \<Rightarrow> ustr \<Rightarrow> track list \<Rightarrow> 'w st \<Rightarrow> (error + nat) \<times> 'w st" where
  "add_selected pre osa playlist_name selected s =
     (if selected = [] then (Inr 0, s)
      else
        (let safe_name = escape playlist_name in
         case run_applescript pre osa (create_script safe_name) s of
           (Inl e, s1) \<Rightarrow> (Inl e, s1)
         | (Inr out, s1) \<Rightarrow>
             (let batches = (length selected + BATCH - 1) div BATCH in
              case add_batches pre osa safe_name selected 0 batches s1 of
                (Inl e, s2) \<Rightarrow> (Inl e, s2)
              | (Inr u, s2) \<Rightarrow> (Inr (length selected), s2))))"

text \<open>
  \<^verbatim>\<open>create_playlist\<close> of the window program: the order is shuffled when \<^verbatim>\<open>randomise\<close>
  is set. The result comes with the generator and the bridge state afterwards.
\<close>

definition create_playlist ::
  "'w osascript \<Rightarrow> ustr \<Rightarrow> int list \<Rightarrow> track list \<Rightarrow> bool \<Rightarrow> rng \<Rightarrow> 'w st
     \<Rightarrow> (error + nat) \<times> rng \<times> 'w st" where
  "create_playlist osa playlist_name track_ids all_tracks randomise g s =
     (let selected = resolve all_tracks track_ids;
          (selected', g') = (if randomise then shuffle selected g else (selected, g))
      in case add_selected [] osa playlist_name selected' s of (r, s') \<Rightarrow> (r, g', s'))"

text \<open>
  \<^verbatim>\<open>create_swinsian_playlist\<close> of the command-line program: it has no such parameter and
  always shuffles.
\<close>

definition create_swinsian_playlist ::
  "'w osascript \<Rightarrow> ustr \<Rightarrow> int list \<Rightarrow> track list \<Rightarrow> rng \<Rightarrow> 'w st
     \<Rightarrow> (error + nat) \<times> rng \<times> 'w st" where
  "create_swinsian_playlist osa playlist_name track_ids all_tracks g s =
     (let selected = resolve all_tracks track_ids;
          (selected', g') = shuffle selected g
      in case add_selected (U ''AppleScript error: '') osa playlist_name selected' s of
           (r, s') \<Rightarrow> (r, g', s'))"


definition succeeds_on :: "'w osascript \<Rightarrow> ustr list \<Rightarrow> bool" where
  "succeeds_on osa scripts \<longleftrightarrow>
     (\<forall>w. \<forall>script \<in> set scripts. \<exists>out err. fst (osa w script) = Inr (0, out, err))"

definition scripts_for :: "ustr \<Rightarrow> track list \<Rightarrow> ustr list" where
  "scripts_for playlist_name selected =
     (if selected = [] then []
      else create_script (escape playlist_name) #
           map (\<lambda>b. batch_script (escape playlist_name) (chunk_at selected b))
             [0..<(length selected + BATCH - 1) div BATCH])"

text \<open>
  The example of the specification: a library of three tracks with ids 0, 1 and 2, and a
  bridge on which every script succeeds with empty output.
\<close>

definition example_track :: "int \<Rightarrow> string \<Rightarrow> string \<Rightarrow> track" where
  "example_track i t a =
     \<lparr>track_id = i, title = U t, artist = U a, album = [], genre = [], year = [],
      rating = [], plays = []\<rparr>"

definition example_library :: "track list" where
  "example_library =
     [example_track 0 ''A'' ''X'', example_track 1 ''B'' ''Y'', example_track 2 ''C'' ''Z'']"

definition quiet_bridge :: "unit osascript" where
  "quiet_bridge w script = (Inr (0, [], []), w)"

section \<open>Reply parsing\<close>

text \<open>
  The values \<^verbatim>\<open>json.loads\<close> returns. An object becomes a dictionary; it is kept as the
  list of its members in the order of the text, and a lookup takes the last member with the
  key, as the dictionary does. A float is kept as the text of its literal.
\<close>

datatype json =
    JNull
  | JBool bool
  | JInt int
  | JFloat ustr
  | JStr ustr
  | JArr "json list"
  | JObj "(ustr \<times> json) list"

text \<open>
  \<^verbatim>\<open>json.loads\<close> belongs to the language's library, so the reply parser takes the
  decoder as a parameter \<open>loads\<close>: it returns a value, or fails with
  \<^verbatim>\<open>json.JSONDecodeError\<close> (\<open>Malformed\<close>), or with another exception (\<open>Aborted\<close>: the
  recursion limit, the digit limit of an integer literal).
\<close>

datatype decode_failure = Malformed | Aborted

type_synonym decoder = "ustr \<Rightarrow> decode_failure + json"

text \<open>
  \<^verbatim>\<open>re.sub(r'^```[a-z]*\n?', '', raw)\<close>: without the multi-line flag the pattern can
  match at the start only. Code point 96 is the backquote.
\<close>

definition is_lower :: "nat \<Rightarrow> bool" where
  "is_lower c \<longleftrightarrow> 97 \<le> c \<and> c \<le> 122"

definition drop_newline :: "ustr \<Rightarrow> ustr" where
  "drop_newline s = (if s \<noteq> [] \<and> hd s = 10 then tl s else s)"

definition strip_opening_fence :: "ustr \<Rightarrow> ustr" where
  "strip_opening_fence raw =
     (if take 3 raw = [96, 96, 96] then drop_newline (dropWhile is_lower (drop 3 raw)) else raw)"

text \<open>
  \<^verbatim>\<open>re.sub(r'\n?```$', '', raw)\<close>: the dollar matches at the end of the text and before
  a line feed that ends the text. The text is examined from its end, reversed.
\<close>

definition strip_closing_fence :: "ustr \<Rightarrow> ustr" where
  "strip_closing_fence raw =
     (let r = rev raw in
      if take 3 r = [96, 96, 96] then rev (drop_newline (drop 3 r))
      else if take 4 r = [10, 96, 96, 96] then rev (10 # drop_newline (drop 4 r))
      else raw)"

text \<open>
  \<^verbatim>\<open>re.search(r'\{.*\}', raw, re.DOTALL)\<close>: the match starts at the first opening brace
  (123) and, the star being greedy and the dot matching line feeds, ends at the last closing
  brace (125) of the text; there is none when no closing brace follows the first opening
  one.
\<close>

definition brace_span :: "ustr \<Rightarrow> ustr option" where
  "brace_span raw =
     (let from_open = dropWhile (\<lambda>c. c \<noteq> 123) raw;
          span = rev (dropWhile (\<lambda>c. c \<noteq> 125) (rev from_open))
      in if span = [] then None else Some span)"

text \<open>\<^verbatim>\<open>data.get(key, default)\<close>: only a dictionary has the method.\<close>

definition member_or :: "(ustr \<times> json) list \<Rightarrow> ustr \<Rightarrow> json \<Rightarrow> json" where
  "member_or members key dflt = (case map_of (rev members) key of None \<Rightarrow> dflt | Some v \<Rightarrow> v)"

fun dict_get :: "json \<Rightarrow> ustr \<Rightarrow> json \<Rightarrow> error + json" where
  "dict_get (JObj members) key dflt = Inr (member_or members key dflt)"
| "dict_get data key dflt = Inl AttributeError"

definition curation_result :: "json \<Rightarrow> error + json \<times> json \<times> json" where
  "curation_result data =
     (case dict_get data (U ''playlist_name'') (JStr (U ''AI Playlist'')) of
        Inl e \<Rightarrow> Inl e
      | Inr name \<Rightarrow>
          (case dict_get data (U ''ids'') (JArr []) of
             Inl e \<Rightarrow> Inl e
           | Inr ids \<Rightarrow>
               (case dict_get data (U ''rationale'') (JStr []) of
                  Inl e \<Rightarrow> Inl e
                | Inr rationale \<Rightarrow> Inr (name, ids, rationale))))"

text \<open>
  The part of \<^verbatim>\<open>ask_claude_for_playlist\<close> and \<^verbatim>\<open>ask_claude\<close> after the call of the
  hosted model, from the text of its reply on. \<open>msg\<close> is the start of the message of the
  \<^verbatim>\<open>ValueError\<close>, which differs between the two programs.
\<close>

definition fence_stripped :: "ustr \<Rightarrow> ustr" where
  "fence_stripped text = strip_closing_fence (strip_opening_fence (strip text))"

definition decode_reply :: "ustr \<Rightarrow> decoder \<Rightarrow> ustr \<Rightarrow> error + json" where
  "decode_reply msg loads raw =
     (case loads raw of
        Inr data \<Rightarrow> Inr data
      | Inl Aborted \<Rightarrow> Inl DecoderAborted
      | Inl Malformed \<Rightarrow>
          (case brace_span raw of
             None \<Rightarrow> Inl (UnexpectedFormat (msg @ raw))
           | Some m \<Rightarrow>
               (case loads m of
                  Inr data \<Rightarrow> Inr data
                | Inl Aborted \<Rightarrow> Inl DecoderAborted
                | Inl Malformed \<Rightarrow> Inl JSONDecodeError)))"

definition parse_reply :: "ustr \<Rightarrow> decoder \<Rightarrow> ustr \<Rightarrow> error + json \<times> json \<times> json" where
  "parse_reply msg loads text =
     (case decode_reply msg loads (fence_stripped text) of
        Inl e \<Rightarrow> Inl e
      | Inr data \<Rightarrow> curation_result data)"

text \<open>
  The whole function: the catalog, the user message, the call of the hosted model (a
  parameter from the user message to its reply or a failure; the system prompt is fixed) and
  the parsing of the reply.
\<close>

definition user_message :: "ustr \<Rightarrow> ustr \<Rightarrow> ustr \<Rightarrow> ustr" where
  "user_message prompt catalog_desc catalog =
     U ''User request: '' @ prompt @ U ''\<newline>\<newline>Library catalog ('' @ catalog_desc @
     U ''):\<newline>'' @ catalog"

definition ask_claude ::
  "(nat \<Rightarrow> nat option) \<Rightarrow> decoder \<Rightarrow> (ustr \<Rightarrow> ustr option) \<Rightarrow> ustr \<Rightarrow> ustr \<Rightarrow> track list \<Rightarrow> rng
     \<Rightarrow> error + (json \<times> json \<times> json) \<times> rng" where
  "ask_claude dec loads llm msg prompt tracks g =
     (case encode dec tracks g of
        Inl e \<Rightarrow> Inl e
      | Inr ((catalog, catalog_desc, sent), g') \<Rightarrow>
          (case llm (user_message prompt catalog_desc catalog) of
             None \<Rightarrow> Inl ServiceError
           | Some text \<Rightarrow>
               (case parse_reply msg loads text of
                  Inl e \<Rightarrow> Inl e
                | Inr r \<Rightarrow> Inr (r, g'))))"

subsection \<open>A decoder for the examples\<close>

text \<open>
  For running the parser on concrete replies: a decoder that follows the grammar of
  \<^verbatim>\<open>json.loads\<close> with its default settings. White space is blank, tab, line feed and
  carriage return; a string may not contain a control character; besides the JSON literals
  the library accepts \<^verbatim>\<open>NaN\<close>, \<^verbatim>\<open>Infinity\<close> and \<^verbatim>\<open>-Infinity\<close>. An integer literal
  beyond the digit limit of \<^verbatim>\<open>int\<close> aborts; the recursion limit of the interpreter is not
  modelled. The recursive functions take fuel, one unit for each code point of the text, and
  fail when it runs out.
\<close>

definition json_ws :: "nat \<Rightarrow> bool" where
  "json_ws c \<longleftrightarrow> c = 32 \<or> c = 9 \<or> c = 10 \<or> c = 13"

definition starts :: "nat \<Rightarrow> ustr \<Rightarrow> bool" where
  "starts c s \<longleftrightarrow> s \<noteq> [] \<and> hd s = c"

definition hex_val :: "nat \<Rightarrow> nat option" where
  "hex_val c =
     (if 48 \<le> c \<and> c \<le> 57 then Some (c - 48)
      else if 97 \<le> c \<and> c \<le> 102 then Some (c - 87)
      else if 65 \<le> c \<and> c \<le> 70 then Some (c - 55)
      else None)"

fun hex4 :: "ustr \<Rightarrow> (nat \<times> ustr) option" where
  "hex4 (a # b # c # d # rest) =
     (case (hex_val a, hex_val b, hex_val c, hex_val d) of
        (Some p, Some q, Some r, Some s) \<Rightarrow> Some (((p * 16 + q) * 16 + r) * 16 + s, rest)
      | _ \<Rightarrow> None)"
| "hex4 s = None"

text \<open>The one-letter escapes: quote, backslash, slash, b, f, n, r, t.\<close>

definition unescape :: "nat \<Rightarrow> nat option" where
  "unescape e =
     (if e = 34 \<or> e = 92 \<or> e = 47 then Some e
      else if e = 98 then Some 8
      else if e = 102 then Some 12
      else if e = 110 then Some 10
      else if e = 114 then Some 13
      else if e = 116 then Some 9
      else None)"

text \<open>
  A string, from behind its opening quote: the decoded text and the rest behind the closing
  quote. An escaped high surrogate followed by an escaped low surrogate is one code point.
\<close>

fun scan_string :: "ustr \<Rightarrow> ustr \<Rightarrow> ustr \<Rightarrow> (ustr \<times> ustr) option" where
  "scan_string [] acc s = None"
| "scan_string (f # fuel) acc [] = None"
| "scan_string (f # fuel) acc (c # cs) =
     (if c = 34 then Some (rev acc, cs)
      else if c = 92 then
        (case cs of
           [] \<Rightarrow> None
         | e # es \<Rightarrow>
             (if e = 117 then
                (case hex4 es of
                   None \<Rightarrow> None
                 | Some (uni, r) \<Rightarrow>
                     (if 55296 \<le> uni \<and> uni \<le> 56319 \<and> take 2 r = [92, 117] then
                        (case hex4 (drop 2 r) of
                           None \<Rightarrow> None
                         | Some (uni2, r2) \<Rightarrow>
                             (if 56320 \<le> uni2 \<and> uni2 \<le> 57343
                              then scan_string fuel
                                     ((65536 + (uni - 55296) * 1024 + (uni2 - 56320)) # acc) r2
                              else scan_string fuel (uni # acc) r))
                      else scan_string fuel (uni # acc) r))
              else (case unescape e of
                      None \<Rightarrow> None
                    | Some d \<Rightarrow> scan_string fuel (d # acc) es)))
      else if c < 32 then None
      else scan_string fuel (c # acc) cs)"

text \<open>
  A number: an optional minus, then 0 or a digit from 1 to 9 with further digits, then an
  optional fraction and an optional exponent. None when the text does not start with one.
\<close>

definition scan_number :: "ustr \<Rightarrow> ((decode_failure + json) \<times> ustr) option" where
  "scan_number s =
     (let negative = starts 45 s;
          s1 = (if negative then tl s else s);
          ip = (if starts 48 s1 then [48] else takeWhile is_digit s1);
          r = drop (length ip) s1;
          fp = (if starts 46 r \<and> tl r \<noteq> [] \<and> is_digit (hd (tl r))
                then 46 # takeWhile is_digit (tl r) else []);
          r' = drop (length fp) r;
          r2 = (if starts 43 (tl r') \<or> starts 45 (tl r') then tl (tl r') else tl r');
          ep = (if (starts 101 r' \<or> starts 69 r') \<and> r2 \<noteq> [] \<and> is_digit (hd r2)
                then take (length r' - length r2) r' @ takeWhile is_digit r2 else []);
          r'' = drop (length ep) r'
      in if ip = [] then None
         else if fp = [] \<and> ep = [] then
           (if int_max_str_digits < length ip then Some (Inl Aborted, r'')
            else Some (Inr (JInt (if negative then - decimal_value ip else decimal_value ip)), r''))
         else Some (Inr (JFloat (take (length s - length r'') s)), r''))"

fun scan_value :: "ustr \<Rightarrow> ustr \<Rightarrow> decode_failure + json \<times> ustr"
  and scan_items :: "ustr \<Rightarrow> json list \<Rightarrow> ustr \<Rightarrow> decode_failure + json \<times> ustr"
  and scan_members :: "ustr \<Rightarrow> (ustr \<times> json) list \<Rightarrow> ustr \<Rightarrow> decode_failure + json \<times> ustr" where
  "scan_value [] s = Inl Malformed"
| "scan_value (f # fuel) s =
     (if starts 34 s then
        (case scan_string s [] (tl s) of
           None \<Rightarrow> Inl Malformed
         | Some (str, r) \<Rightarrow> Inr (JStr str, r))
      else if starts 123 s then
        (let r = dropWhile json_ws (tl s) in
         if starts 125 r then Inr (JObj [], tl r)
         else if starts 34 r then scan_members fuel [] r
         else Inl Malformed)
      else if starts 91 s then
        (let r = dropWhile json_ws (tl s) in
         if starts 93 r then Inr (JArr [], tl r) else scan_items fuel [] r)
      else if take 4 s = U ''null'' then Inr (JNull, drop 4 s)
      else if take 4 s = U ''true'' then Inr (JBool True, drop 4 s)
      else if take 5 s = U ''false'' then Inr (JBool False, drop 5 s)
      else
        (case scan_number s of
           Some (Inl e, r) \<Rightarrow> Inl e
         | Some (Inr v, r) \<Rightarrow> Inr (v, r)
         | None \<Rightarrow>
             (if take 3 s = U ''NaN'' then Inr (JFloat (U ''NaN''), drop 3 s)
              else if take 8 s = U ''Infinity'' then Inr (JFloat (U ''Infinity''), drop 8 s)
              else if take 9 s = U ''-Infinity'' then Inr (JFloat (U ''-Infinity''), drop 9 s)
              else Inl Malformed)))"
| "scan_items [] acc s = Inl Malformed"
| "scan_items (f # fuel) acc s =
     (case scan_value fuel s of
        Inl e \<Rightarrow> Inl e
      | Inr (v, r) \<Rightarrow>
          (let r1 = dropWhile json_ws r in
           if starts 93 r1 then Inr (JArr (rev (v # acc)), tl r1)
           else if starts 44 r1 then scan_items fuel (v # acc) (dropWhile json_ws (tl r1))
           else Inl Malformed))"
| "scan_members [] acc s = Inl Malformed"
| "scan_members (f # fuel) acc s =
     (if starts 34 s then
        (case scan_string s [] (tl s) of
           None \<Rightarrow> Inl Malformed
         | Some (key, r) \<Rightarrow>
             (let r1 = dropWhile json_ws r in
              if starts 58 r1 then
                (case scan_value fuel (dropWhile json_ws (tl r1)) of
                   Inl e \<Rightarrow> Inl e
                 | Inr (v, r3) \<Rightarrow>
                     (let r4 = dropWhile json_ws r3 in
                      if starts 125 r4 then Inr (JObj (rev ((key, v) # acc)), tl r4)
                      else if starts 44 r4
                      then scan_members fuel ((key, v) # acc) (dropWhile json_ws (tl r4))
                      else Inl Malformed))
              else Inl Malformed))
      else Inl Malformed)"

definition reference_loads :: decoder where
  "reference_loads s =
     (case scan_value (0 # s) (dropWhile json_ws s) of
        Inl e \<Rightarrow> Inl e
      | Inr (v, r) \<Rightarrow> (if dropWhile json_ws r = [] then Inr v else Inl Malformed))"

section \<open>Properties of the library reader\<close>

lemma bind_st_Inr:
  "bind_st m f s = (Inr b, s') \<longleftrightarrow> (\<exists>a s1. m s = (Inr a, s1) \<and> f a s1 = (Inr b, s'))"
  by (auto simp: bind_st_def split: prod.splits sum.splits)

lemma collect_tracks_ids:
  "map track_id (collect_tracks i names ar al ge ye ra pl) =
     map (int \<circ> fst) (filter (\<lambda>(k, n). strip n \<noteq> []) (enumerate i names))"
  by (induction names arbitrary: i) (simp_all add: Let_def)

lemma collect_tracks_lower:
  "t \<in> set (collect_tracks i names ar al ge ye ra pl) \<Longrightarrow> int i \<le> track_id t"
proof (induction names arbitrary: i)
  case Nil
  then show ?case by simp
next
  case (Cons name names)
  from Cons.prems consider "track_id t = int i"
    | "t \<in> set (collect_tracks (Suc i) names ar al ge ye ra pl)"
    by (auto simp: Let_def split: if_splits)
  then show ?case
  proof cases
    case 1
    then show ?thesis by simp
  next
    case 2
    from Cons.IH [OF 2] show ?thesis by simp
  qed
qed

lemma collect_tracks_increasing:
  "sorted_wrt (<) (map track_id (collect_tracks i names ar al ge ye ra pl))"
proof (induction names arbitrary: i)
  case Nil
  then show ?case by simp
next
  case (Cons name names)
  have "int i < track_id t" if "t \<in> set (collect_tracks (Suc i) names ar al ge ye ra pl)" for t
    using collect_tracks_lower [OF that] by simp
  with Cons.IH [of "Suc i"] show ?case
    by (simp add: Let_def)
qed

lemma id_to_track_snoc:
  "id_to_track (ts @ [t]) = (id_to_track ts)(track_id t \<mapsto> t)"
  by (simp add: id_to_track_def)

lemma id_to_track_Nil: "id_to_track [] = Map.empty"
  by (simp add: id_to_track_def)

lemma id_to_track_Some:
  "id_to_track ts k = Some t \<Longrightarrow> t \<in> set ts \<and> track_id t = k"
  by (induction ts rule: rev_induct) (auto simp: id_to_track_snoc id_to_track_Nil split: if_splits)

lemma id_to_track_None:
  "id_to_track ts k = None \<longleftrightarrow> k \<notin> track_id ` set ts"
  by (induction ts rule: rev_induct) (auto simp: id_to_track_snoc id_to_track_Nil)

lemma id_to_track_distinct:
  "distinct (map track_id ts) \<Longrightarrow> t \<in> set ts \<Longrightarrow> id_to_track ts (track_id t) = Some t"
proof (induction ts rule: rev_induct)
  case Nil
  then show ?case by simp
next
  case (snoc x xs)
  show ?case
  proof (cases "t = x")
    case True
    then show ?thesis by (simp add: id_to_track_snoc)
  next
    case False
    with snoc.prems have in_xs: "t \<in> set xs" and d: "distinct (map track_id xs)"
      and "track_id x \<notin> track_id ` set xs" by auto
    then have "track_id t \<noteq> track_id x" by (metis imageI)
    with snoc.IH [OF d in_xs] show ?thesis by (simp add: id_to_track_snoc)
  qed
qed

lemma get_library_tracks_collect:
  assumes "fetch_property pre osa (U ''name'') s = (Inr names, s1)"
    and "get_library_tracks pre osa s = (Inr tracks, s')"
  shows "\<exists>ar al ge ye ra pl. tracks = collect_tracks 0 names ar al ge ye ra pl"
  using assms unfolding get_library_tracks_def
  by (fastforce simp: bind_st_Inr)

text \<open>
  Claim C1, as the code has it. The \<^verbatim>\<open>id\<close> of a record is the index \<^verbatim>\<open>i\<close> of
  \<^verbatim>\<open>enumerate(names)\<close>, that is the position of its name in the sequence the external
  application returned, empty names included; it is not the running index over the records
  that are kept. So the ids of an extracted library are the positions of the names that are
  not empty after stripping, in increasing order: they are unique, but contiguous from 0
  only when no name was dropped before them. Each id resolves through the identifier
  lookup \<open>id_to_track\<close> to exactly the record it was assigned to.
\<close>

theorem C1_ids_are_name_positions:
  assumes "fetch_property pre osa (U ''name'') s = (Inr names, s1)"
    and "get_library_tracks pre osa s = (Inr tracks, s')"
  shows "map track_id tracks =
           map (int \<circ> fst) (filter (\<lambda>(k, n). strip n \<noteq> []) (enumerate 0 names))
         \<and> sorted_wrt (<) (map track_id tracks)
         \<and> distinct (map track_id tracks)
         \<and> (\<forall>t \<in> set tracks. id_to_track tracks (track_id t) = Some t)"
proof -
  from get_library_tracks_collect [OF assms] obtain ar al ge ye ra pl
    where tr: "tracks = collect_tracks 0 names ar al ge ye ra pl" by blast
  have inc: "sorted_wrt (<) (map track_id tracks)"
    unfolding tr by (rule collect_tracks_increasing)
  then have dist: "distinct (map track_id tracks)"
    by (simp add: strict_sorted_iff)
  from tr inc dist show ?thesis
    by (simp add: collect_tracks_ids id_to_track_distinct)
qed

theorem C1_ids_are_name_positions_witness:
  "map track_id [\<lparr>track_id = 1, title = U ''A'', artist = U ''A'', album = U ''A'',
        genre = U ''A'', year = U ''A'', rating = U ''A'', plays = U ''A''\<rparr>] = [1]
   \<and> id_to_track [\<lparr>track_id = 1, title = U ''A'', artist = U ''A'', album = U ''A'',
        genre = U ''A'', year = U ''A'', rating = U ''A'', plays = U ''A''\<rparr>] 1
      = Some \<lparr>track_id = 1, title = U ''A'', artist = U ''A'', album = U ''A'',
        genre = U ''A'', year = U ''A'', rating = U ''A'', plays = U ''A''\<rparr>"
proof -
  let ?r = "(0::int, U ''~~~A'', [] :: ustr)"
  let ?s = "([?r, ?r, ?r, ?r, ?r, ?r, ?r], [] :: ustr list)"
  let ?t = "\<lparr>track_id = 1, title = U ''A'', artist = U ''A'', album = U ''A'',
        genre = U ''A'', year = U ''A'', rating = U ''A'', plays = U ''A''\<rparr>"
  have names: "fetch_property [] canned (U ''name'') ?s =
      (Inr [[], U ''A''], ([?r, ?r, ?r, ?r, ?r, ?r], [fetch_script (U ''name'')]))"
    by (simp add: fetch_property_def bind_st_def run_applescript_def canned_def
        strip_def isspace_def U_def)
  have lib: "get_library_tracks [] canned ?s =
      (Inr [?t], snd (get_library_tracks [] canned ?s))"
    by (simp add: get_library_tracks_def fetch_property_def bind_st_def run_applescript_def
        canned_def strip_def isspace_def U_def field_at_def)
  from C1_ids_are_name_positions [OF names lib] show ?thesis
    by simp
qed

text \<open>
  The claim as the specification words it fails: a library whose first track has an empty
  name and whose second is named A yields one record, and its id is 1, not the running
  index 0.
\<close>

theorem C1_running_index_counterexample:
  "(case fst (get_library_tracks [] canned
        ([(0, U ''~~~A'', []), (0, U ''~~~A'', []), (0, U ''~~~A'', []), (0, U ''~~~A'', []),
          (0, U ''~~~A'', []), (0, U ''~~~A'', []), (0, U ''~~~A'', [])], []))
    of Inr tracks \<Rightarrow> length tracks = 1 \<and> map track_id tracks \<noteq> map int [0..<length tracks]
     | Inl e \<Rightarrow> False)"
  by (simp add: get_library_tracks_def fetch_property_def bind_st_def run_applescript_def
      canned_def strip_def isspace_def U_def field_at_def)

section \<open>Properties of the sort key and of the sampling\<close>

lemma those_to_ascii:
  "list_all (\<lambda>c. c < 128) s \<Longrightarrow> those (map (to_ascii dec) s) = Some s"
  by (induction s) (simp_all add: to_ascii_def)

lemma underscores_ok_digits:
  "s \<noteq> [] \<Longrightarrow> list_all is_digit s \<Longrightarrow> underscores_ok s"
  by (induction s rule: underscores_ok.induct) (auto simp: is_digit_def)

lemma py_int_digits:
  assumes "s \<noteq> []" and "list_all is_digit s" and "length s \<le> int_max_str_digits"
  shows "py_int dec s = Some (decimal_value s)"
proof -
  from assms(2) have small: "list_all (\<lambda>c. c < 128) s"
    by (induction s) (auto simp: is_digit_def)
  from assms(1,2) obtain c cs where s: "s = c # cs" and c: "is_digit c"
    by (cases s) auto
  from c have nosp: "\<not> ascii_space c" and nosign: "c \<noteq> 45" "c \<noteq> 43"
    by (auto simp: is_digit_def ascii_space_def)
  have b: "dropWhile ascii_space s = s" using s nosp by simp
  have all: "\<forall>x \<in> set s. is_digit x \<or> x = 95" using assms(2) by (auto simp: list_all_iff)
  have tw: "takeWhile (\<lambda>x. is_digit x \<or> x = 95) s = s"
    using all by (simp add: takeWhile_eq_all_conv)
  have dw: "dropWhile (\<lambda>x. is_digit x \<or> x = 95) s = []"
    using all by (simp add: dropWhile_eq_Nil_conv)
  have fl: "filter is_digit s = s"
    using assms(2) by (simp add: list_all_iff)
  show ?thesis
    unfolding py_int_def those_to_ascii [OF small]
    using underscores_ok_digits [OF assms(1,2)] assms(3) nosign
    by (simp add: Let_def b tw dw fl s [symmetric]) (simp add: s)
qed

lemma keys_of_Inr:
  "keys_of dec tracks = Inr ks \<Longrightarrow> map (play_key dec) tracks = map Inr ks"
  by (induction tracks arbitrary: ks) (auto split: sum.splits)

lemma keys_of_Inl_member:
  "x \<in> set tracks \<Longrightarrow> play_key dec x = Inl e \<Longrightarrow> \<exists>e'. keys_of dec tracks = Inl e'"
  by (induction tracks) (auto split: sum.splits)

lemma keys_of_total:
  "(\<And>x. x \<in> set tracks \<Longrightarrow> \<exists>k. play_key dec x = Inr k) \<Longrightarrow> \<exists>ks. keys_of dec tracks = Inr ks"
  by (induction tracks) (fastforce split: sum.splits)+

lemma keys_of_key_of:
  "keys_of dec tracks = Inr ks \<Longrightarrow> ks = map (key_of dec) tracks"
  by (induction tracks arbitrary: ks) (auto split: sum.splits simp: key_of_def)

lemma insort_key_decorated:
  "map snd (insort_key (\<lambda>(k, x). f k) (kf x, x) (zip (map kf ys) ys)) =
     insort_key (\<lambda>x. f (kf x)) x ys \<and>
   insort_key (\<lambda>(k, x). f k) (kf x, x) (zip (map kf ys) ys) =
     zip (map kf (insort_key (\<lambda>x. f (kf x)) x ys)) (insort_key (\<lambda>x. f (kf x)) x ys)"
  by (induction ys) auto

lemma sort_key_decorated:
  "sort_key (\<lambda>(k, x). f k) (zip (map kf xs) xs) =
     zip (map kf (sort_key (\<lambda>x. f (kf x)) xs)) (sort_key (\<lambda>x. f (kf x)) xs)"
  by (induction xs) (simp_all add: insort_key_decorated)

lemma sort_key_undecorate:
  "map snd (sort_key (\<lambda>(k, x). f k) (zip (map kf xs) xs)) = sort_key (\<lambda>x. f (kf x)) xs"
  by (simp add: sort_key_decorated)

lemma sorted_by_plays_sort:
  "sorted_by_plays dec tracks = Inr by_plays \<Longrightarrow>
     by_plays = sort_key (\<lambda>x. - key_of dec x) tracks"
  by (auto simp: sorted_by_plays_def sort_key_undecorate split: sum.splits dest!: keys_of_key_of)

lemma shuffle_from_mset:
  "i < length x \<Longrightarrow> mset (fst (shuffle_from i x g)) = mset x"
proof (induction i arbitrary: x g)
  case 0
  then show ?case by simp
next
  case (Suc i)
  obtain j g' where rb: "randbelow (Suc (Suc i)) g = (j, g')" by force
  then have "j < Suc (Suc i)" by (auto simp: randbelow_def split: list.splits)
  with Suc.prems have j: "j < length x" by simp
  let ?x' = "x[Suc i := x ! j, j := x ! Suc i]"
  have "mset ?x' = mset x" using mset_swap [OF j Suc.prems] .
  moreover have "i < length ?x'" using Suc.prems by simp
  ultimately show ?case using Suc.IH [of ?x' g'] rb by simp
qed

lemma shuffle_mset: "mset (fst (shuffle x g)) = mset x"
proof (cases x)
  case Nil
  then show ?thesis by (simp add: shuffle_def)
next
  case (Cons a as)
  then show ?thesis by (simp add: shuffle_def shuffle_from_mset)
qed

lemma shuffle_length: "length (fst (shuffle x g)) = length x"
  using shuffle_mset [of x g] by (metis size_mset)

lemma play_key_Inl:
  "(\<exists>e. play_key dec x = Inl e) \<longleftrightarrow> plays x \<noteq> [] \<and> py_int dec (plays x) = None"
  by (auto simp: play_key_def split: option.splits)

lemma keys_of_fails:
  "(\<exists>e. keys_of dec tracks = Inl e) \<longleftrightarrow> (\<exists>x \<in> set tracks. \<exists>e. play_key dec x = Inl e)"
proof
  assume "\<exists>e. keys_of dec tracks = Inl e"
  then show "\<exists>x \<in> set tracks. \<exists>e. play_key dec x = Inl e"
    by (induction tracks) (auto split: sum.splits)
next
  assume "\<exists>x \<in> set tracks. \<exists>e. play_key dec x = Inl e"
  then show "\<exists>e. keys_of dec tracks = Inl e"
    using keys_of_Inl_member by blast
qed

lemma sample_tracks_fails:
  "(\<exists>e. sample_tracks dec tracks g = Inl e) \<longleftrightarrow> (\<exists>e. keys_of dec tracks = Inl e)"
  by (auto simp: sample_tracks_def sorted_by_plays_def Let_def split: sum.splits prod.splits)

lemma sample_tracks_shape:
  assumes "sorted_by_plays dec tracks = Inr by_plays"
  shows "sample_tracks dec tracks g =
     Inr (take (MAX_TRACKS_COMPACT div 2) by_plays @
          take (MAX_TRACKS_COMPACT - length (take (MAX_TRACKS_COMPACT div 2) by_plays))
            (fst (shuffle (drop (MAX_TRACKS_COMPACT div 2) by_plays) g)),
          snd (shuffle (drop (MAX_TRACKS_COMPACT div 2) by_plays) g))"
  using assms by (simp add: sample_tracks_def Let_def split: prod.splits)

lemma mset_take_subset: "mset (take n xs) \<subseteq># mset xs"
proof -
  have "mset xs = mset (take n xs) + mset (drop n xs)"
    by (metis append_take_drop_id mset_append)
  then show ?thesis by simp
qed

lemma sorted_by_plays_total:
  assumes "\<forall>x \<in> set tracks. plays x = [] \<or> py_int dec (plays x) \<noteq> None"
  shows "sorted_by_plays dec tracks = Inr (sort_key (\<lambda>x. - key_of dec x) tracks)"
proof -
  have "\<not> (\<exists>e. keys_of dec tracks = Inl e)"
    unfolding keys_of_fails play_key_Inl using assms by blast
  then obtain ks where "keys_of dec tracks = Inr ks"
    by (cases "keys_of dec tracks") auto
  then obtain bp where bp: "sorted_by_plays dec tracks = Inr bp"
    by (simp add: sorted_by_plays_def)
  from sorted_by_plays_sort [OF bp] bp show ?thesis by simp
qed

lemma keys_of_replicate_Inl:
  "0 < n \<Longrightarrow> play_key dec x = Inl e \<Longrightarrow> keys_of dec (replicate n x) = Inl e"
  by (cases n) simp_all

text \<open>
  Claim C2, as the code has it. For a library of more than \<open>MAX_TRACKS_COMPACT\<close> tracks
  whose play-count strings are all empty or accepted by \<^verbatim>\<open>int\<close>, the sort succeeds and the
  result \<open>by_plays\<close> lists the same tracks by descending play count, equal counts in their
  original order. For every generator \<open>g\<close> the encoder then returns a compact catalog of
  exactly \<open>MAX_TRACKS_COMPACT\<close> tracks of the library whose first half is the first half
  of \<open>by_plays\<close>: the most played tracks are present whatever the random draws are, and
  only the second half depends on them.
\<close>

theorem C2_sampling_head_and_size:
  assumes big: "MAX_TRACKS_COMPACT < length tracks"
    and keys: "\<forall>x \<in> set tracks. plays x = [] \<or> py_int dec (plays x) \<noteq> None"
  shows "\<exists>by_plays.
           sorted_by_plays dec tracks = Inr by_plays
         \<and> mset by_plays = mset tracks
         \<and> sorted (map (\<lambda>x. - key_of dec x) by_plays)
         \<and> (\<forall>k. filter (\<lambda>x. key_of dec x = k) by_plays = filter (\<lambda>x. key_of dec x = k) tracks)
         \<and> (\<forall>g. \<exists>out g'.
               encode dec tracks g = Inr ((build_compact_catalog out, U ''id|title|artist'', out), g')
             \<and> length out = MAX_TRACKS_COMPACT
             \<and> take (MAX_TRACKS_COMPACT div 2) out = take (MAX_TRACKS_COMPACT div 2) by_plays
             \<and> mset out \<subseteq># mset tracks)"
proof -
  define by_plays where "by_plays = sort_key (\<lambda>x. - key_of dec x) tracks"
  have bp: "sorted_by_plays dec tracks = Inr by_plays"
    unfolding by_plays_def by (rule sorted_by_plays_total [OF keys])
  have ms: "mset by_plays = mset tracks"
    by (simp add: by_plays_def)
  then have len: "length by_plays = length tracks"
    by (metis size_mset)
  have srt: "sorted (map (\<lambda>x. - key_of dec x) by_plays)"
    unfolding by_plays_def by (rule sorted_sort_key)
  have stable: "filter (\<lambda>x. key_of dec x = k) by_plays = filter (\<lambda>x. key_of dec x = k) tracks" for k
    using sort_key_stable [of "\<lambda>x. - key_of dec x" "- k" tracks] by (simp add: by_plays_def)
  have sampled: "\<exists>out g'.
               encode dec tracks g = Inr ((build_compact_catalog out, U ''id|title|artist'', out), g')
             \<and> length out = MAX_TRACKS_COMPACT
             \<and> take (MAX_TRACKS_COMPACT div 2) out = take (MAX_TRACKS_COMPACT div 2) by_plays
             \<and> mset out \<subseteq># mset tracks" for g
  proof -
    let ?h = "MAX_TRACKS_COMPACT div 2"
    let ?top = "take ?h by_plays"
    let ?rest = "drop ?h by_plays"
    let ?rest' = "fst (shuffle ?rest g)"
    let ?out = "?top @ take (MAX_TRACKS_COMPACT - length ?top) ?rest'"
    have ltop: "length ?top = ?h"
      using big len by (simp add: MAX_TRACKS_COMPACT_def)
    have lrest: "length ?rest' = length tracks - ?h"
      by (simp add: shuffle_length len)
    have lout: "length ?out = MAX_TRACKS_COMPACT"
      using big ltop lrest by (simp add: MAX_TRACKS_COMPACT_def)
    have head: "take ?h ?out = ?top"
      using ltop by simp
    have "mset (take (MAX_TRACKS_COMPACT - length ?top) ?rest') \<subseteq># mset ?rest'"
      by (rule mset_take_subset)
    also have "mset ?rest' = mset ?rest"
      by (rule shuffle_mset)
    finally have "mset ?out \<subseteq># mset ?top + mset ?rest"
      by (simp del: length_take)
    also have "mset ?top + mset ?rest = mset tracks"
      using ms by (metis append_take_drop_id mset_append)
    finally have sub: "mset ?out \<subseteq># mset tracks" .
    have "encode dec tracks g =
        Inr ((build_compact_catalog ?out, U ''id|title|artist'', ?out), snd (shuffle ?rest g))"
      using big by (simp add: encode_def Let_def sample_tracks_shape [OF bp]
          MAX_TRACKS_FULL_def MAX_TRACKS_COMPACT_def del: length_take)
    with lout head sub show ?thesis
      by (intro exI conjI) (assumption | simp only:)+
  qed
  from bp ms srt stable sampled show ?thesis by blast
qed

theorem C2_sampling_head_and_size_witness:
  "\<exists>out g'. encode (\<lambda>c. None)
       (replicate 4001 \<lparr>track_id = 0, title = U ''A'', artist = U ''X'', album = [], genre = [],
          year = [], rating = [], plays = []\<rparr>) [7, 1]
       = Inr ((build_compact_catalog out, U ''id|title|artist'', out), g')
     \<and> length out = 4000"
proof -
  let ?t = "\<lparr>track_id = 0, title = U ''A'', artist = U ''X'', album = [], genre = [],
          year = [], rating = [], plays = []\<rparr>"
  have big: "MAX_TRACKS_COMPACT < length (replicate 4001 ?t)"
    by (simp add: MAX_TRACKS_COMPACT_def)
  have keys: "\<forall>x \<in> set (replicate 4001 ?t). plays x = [] \<or> py_int (\<lambda>c. None) (plays x) \<noteq> None"
    by simp
  from C2_sampling_head_and_size [OF big keys] show ?thesis
    unfolding MAX_TRACKS_COMPACT_def by blast
qed

text \<open>
  Without the condition on the strings the claim fails: on 4001 tracks whose play count
  reads 3.5 the sort raises and no catalog is produced at all.
\<close>

theorem C2_non_numeric_counterexample:
  "encode (\<lambda>c. None)
     (replicate 4001 \<lparr>track_id = 0, title = U ''A'', artist = U ''X'', album = [], genre = [],
        year = [], rating = [], plays = U ''3.5''\<rparr>) [] = Inl (IntValueError (U ''3.5''))"
proof -
  let ?t = "\<lparr>track_id = 0, title = U ''A'', artist = U ''X'', album = [], genre = [],
        year = [], rating = [], plays = U ''3.5''\<rparr>"
  have "play_key (\<lambda>c. None) ?t = Inl (IntValueError (U ''3.5''))"
    by (simp add: play_key_def py_int_def U_def to_ascii_def ascii_space_def is_digit_def Let_def)
  then have "keys_of (\<lambda>c. None) (replicate 4001 ?t) = Inl (IntValueError (U ''3.5''))"
    by (intro keys_of_replicate_Inl) simp_all
  then show ?thesis
    by (simp add: encode_def sample_tracks_def sorted_by_plays_def
        MAX_TRACKS_FULL_def MAX_TRACKS_COMPACT_def)
qed

lemma py_int_empty: "py_int dec [] = None"
  by (simp add: py_int_def)

text \<open>
  Claim C3, as the code has it. The sort key is \<^verbatim>\<open>int(x["plays"] or 0)\<close>: it is 0 for the
  empty string and, for every other string, the value \<^verbatim>\<open>int\<close> gives it, whatever its
  form (a sign, blanks around it, underscores between digits); for a string of decimal
  digits within the interpreter's length limit that is its decimal value. The default
  covers the empty string only: the key raises \<^verbatim>\<open>ValueError\<close>, carrying the string, exactly
  when the string is not empty and \<^verbatim>\<open>int\<close> rejects it, and the sampling fails exactly when
  the library holds such a track.
\<close>

theorem C3_play_count_key:
  "(plays x = [] \<longrightarrow> play_key dec x = Inr 0)
   \<and> (py_int dec (plays x) = Some k \<longrightarrow> play_key dec x = Inr k)
   \<and> (plays x \<noteq> [] \<and> py_int dec (plays x) = None \<longrightarrow>
        play_key dec x = Inl (IntValueError (plays x)))
   \<and> (plays x \<noteq> [] \<and> list_all is_digit (plays x) \<and> length (plays x) \<le> int_max_str_digits
        \<longrightarrow> play_key dec x = Inr (decimal_value (plays x)))
   \<and> ((\<exists>e. play_key dec x = Inl e) \<longleftrightarrow> plays x \<noteq> [] \<and> py_int dec (plays x) = None)
   \<and> ((\<exists>e. sample_tracks dec tracks g = Inl e) \<longleftrightarrow>
        (\<exists>y \<in> set tracks. plays y \<noteq> [] \<and> py_int dec (plays y) = None))"
proof (intro conjI impI)
  assume "plays x = []"
  then show "play_key dec x = Inr 0" by (simp add: play_key_def)
next
  assume k: "py_int dec (plays x) = Some k"
  then have "plays x \<noteq> []" using py_int_empty [of dec] by auto
  with k show "play_key dec x = Inr k" by (simp add: play_key_def)
next
  assume "plays x \<noteq> [] \<and> py_int dec (plays x) = None"
  then show "play_key dec x = Inl (IntValueError (plays x))" by (simp add: play_key_def)
next
  assume "plays x \<noteq> [] \<and> list_all is_digit (plays x) \<and> length (plays x) \<le> int_max_str_digits"
  then show "play_key dec x = Inr (decimal_value (plays x))"
    by (simp add: play_key_def py_int_digits)
next
  show "(\<exists>e. play_key dec x = Inl e) \<longleftrightarrow> plays x \<noteq> [] \<and> py_int dec (plays x) = None"
    by (rule play_key_Inl)
next
  show "(\<exists>e. sample_tracks dec tracks g = Inl e) \<longleftrightarrow>
        (\<exists>y \<in> set tracks. plays y \<noteq> [] \<and> py_int dec (plays y) = None)"
    by (simp add: sample_tracks_fails keys_of_fails play_key_Inl)
qed

theorem C3_play_count_key_witness:
  "play_key (\<lambda>c. None) (example_track 0 ''A'' ''X'') = Inr 0
   \<and> play_key (\<lambda>c. None) ((example_track 1 ''B'' ''Y'')\<lparr>plays := U ''42''\<rparr>) = Inr 42
   \<and> play_key (\<lambda>c. None) ((example_track 2 ''C'' ''Z'')\<lparr>plays := U '' -1_7 ''\<rparr>) = Inr (- 17)
   \<and> play_key (\<lambda>c. None) ((example_track 2 ''C'' ''Z'')\<lparr>plays := U ''+3''\<rparr>) = Inr 3
   \<and> play_key (\<lambda>c. None) ((example_track 2 ''C'' ''Z'')\<lparr>plays := U ''abc''\<rparr>)
       = Inl (IntValueError (U ''abc''))"
proof -
  let ?dec = "\<lambda>c :: nat. None :: nat option"
  have i1: "py_int ?dec (U '' -1_7 '') = Some (- 17)"
    by (simp add: py_int_def U_def to_ascii_def ascii_space_def is_digit_def Let_def
        decimal_value_def int_max_str_digits_def)
  have i2: "py_int ?dec (U ''+3'') = Some 3"
    by (simp add: py_int_def U_def to_ascii_def ascii_space_def is_digit_def Let_def
        decimal_value_def int_max_str_digits_def)
  have i3: "py_int ?dec (U ''abc'') = None"
    by (simp add: py_int_def U_def to_ascii_def ascii_space_def is_digit_def Let_def)
  have a: "play_key ?dec (example_track 0 ''A'' ''X'') = Inr 0"
    using C3_play_count_key [of "example_track 0 ''A'' ''X''" ?dec 0 "[]" "[]"]
    by (simp add: example_track_def)
  have b: "play_key ?dec ((example_track 1 ''B'' ''Y'')\<lparr>plays := U ''42''\<rparr>) = Inr 42"
    using C3_play_count_key [of "(example_track 1 ''B'' ''Y'')\<lparr>plays := U ''42''\<rparr>" ?dec 0 "[]" "[]"]
    by (simp add: U_def is_digit_def int_max_str_digits_def decimal_value_def)
  have c: "play_key ?dec ((example_track 2 ''C'' ''Z'')\<lparr>plays := U '' -1_7 ''\<rparr>) = Inr (- 17)"
    using C3_play_count_key [of "(example_track 2 ''C'' ''Z'')\<lparr>plays := U '' -1_7 ''\<rparr>" ?dec "- 17"
        "[]" "[]"] i1
    by simp
  have d: "play_key ?dec ((example_track 2 ''C'' ''Z'')\<lparr>plays := U ''+3''\<rparr>) = Inr 3"
    using C3_play_count_key [of "(example_track 2 ''C'' ''Z'')\<lparr>plays := U ''+3''\<rparr>" ?dec 3 "[]" "[]"] i2
    by simp
  have e: "play_key ?dec ((example_track 2 ''C'' ''Z'')\<lparr>plays := U ''abc''\<rparr>)
       = Inl (IntValueError (U ''abc''))"
    using C3_play_count_key [of "(example_track 2 ''C'' ''Z'')\<lparr>plays := U ''abc''\<rparr>" ?dec 0 "[]" "[]"] i3
    by (simp add: U_def)
  from a b c d e show ?thesis by (intro conjI)
qed

text \<open>
  The claim as worded fails on a non-numeric string: the key of a track whose play count
  reads abc is an exception, not 0, and sampling a library that holds it fails.
\<close>

theorem C3_non_numeric_counterexample:
  "play_key (\<lambda>c. None)
     \<lparr>track_id = 0, title = U ''A'', artist = U ''X'', album = [], genre = [], year = [],
      rating = [], plays = U ''abc''\<rparr> = Inl (IntValueError (U ''abc''))
   \<and> sample_tracks (\<lambda>c. None)
     [\<lparr>track_id = 0, title = U ''A'', artist = U ''X'', album = [], genre = [], year = [],
      rating = [], plays = U ''abc''\<rparr>] [] = Inl (IntValueError (U ''abc''))"
  by (simp add: sample_tracks_def sorted_by_plays_def play_key_def py_int_def U_def to_ascii_def
      ascii_space_def is_digit_def Let_def)

section \<open>Properties of the catalog encoder\<close>

lemma digits_of_range: "c \<in> set (digits_of n) \<Longrightarrow> 48 \<le> c \<and> c \<le> 57"
proof (induction n rule: digits_of.induct)
  case (1 n)
  show ?case
  proof (cases "n < 10")
    case True
    with "1.prems" show ?thesis by (simp add: digits_of.simps [of n])
  next
    case False
    with "1.prems" have "c \<in> set (digits_of (n div 10)) \<or> c = 48 + n mod 10"
      by (auto simp: digits_of.simps [of n])
    then show ?thesis
    proof
      assume "c \<in> set (digits_of (n div 10))"
      with "1.IH" False show ?thesis by simp
    next
      assume "c = 48 + n mod 10"
      moreover have "n mod 10 < 10" by simp
      ultimately show ?thesis by linarith
    qed
  qed
qed

lemma str_of_int_no_lf: "10 \<notin> set (str_of_int i)"
  using digits_of_range [of 10] by (auto simp: str_of_int_def)

lemma split_lines_plain: "10 \<notin> set l \<Longrightarrow> split_lines acc l = [rev acc @ l]"
  by (induction l arbitrary: acc) auto

lemma split_lines_first:
  "10 \<notin> set l \<Longrightarrow> split_lines acc (l @ 10 # r) = (rev acc @ l) # split_lines [] r"
  by (induction l arbitrary: acc) auto

lemma split_lines_join:
  "\<forall>l \<in> set (x # ls). 10 \<notin> set l \<Longrightarrow> split_lines [] (join [10] (x # ls)) = x # ls"
proof (induction ls arbitrary: x)
  case Nil
  then show ?case by (simp add: split_lines_plain)
next
  case (Cons y ys)
  then have "10 \<notin> set x" and "\<forall>l \<in> set (y # ys). 10 \<notin> set l" by auto
  with Cons.IH [of y] show ?case
    using split_lines_first [of x "[]" "join [10] (y # ys)"] by simp
qed

lemma join_nonempty: "ls \<noteq> [] \<Longrightarrow> \<forall>l \<in> set ls. l \<noteq> [] \<Longrightarrow> join sep ls \<noteq> []"
  by (induction sep ls rule: join.induct) auto

lemma lines_of_join:
  assumes "\<forall>l \<in> set ls. 10 \<notin> set l \<and> l \<noteq> []"
  shows "lines_of (join [10] ls) = ls"
proof (cases ls)
  case Nil
  then show ?thesis by (simp add: lines_of_def)
next
  case (Cons x xs)
  with assms have "join [10] ls \<noteq> []" by (intro join_nonempty) auto
  moreover from assms Cons have "split_lines [] (join [10] ls) = ls"
    using split_lines_join [of x xs] by simp
  ultimately show ?thesis by (simp add: lines_of_def)
qed

lemma full_line_nonempty: "full_line t \<noteq> []"
  by (simp add: full_line_def)

lemma compact_line_nonempty: "compact_line t \<noteq> []"
  by (simp add: compact_line_def)

lemma lines_of_full_catalog:
  assumes "\<forall>t \<in> set tracks. 10 \<notin> set (title t) \<and> 10 \<notin> set (artist t) \<and> 10 \<notin> set (album t) \<and>
     10 \<notin> set (genre t) \<and> 10 \<notin> set (year t) \<and> 10 \<notin> set (rating t) \<and> 10 \<notin> set (plays t)"
  shows "lines_of (build_full_catalog tracks) = map full_line tracks"
  unfolding build_full_catalog_def
proof (rule lines_of_join, rule ballI)
  fix l assume "l \<in> set (map full_line tracks)"
  then obtain t where t: "t \<in> set tracks" and l: "l = full_line t" by auto
  from assms t have "10 \<notin> set (full_line t)"
    by (simp add: full_line_def str_of_int_no_lf)
  with l show "10 \<notin> set l \<and> l \<noteq> []" by (simp add: full_line_nonempty)
qed

lemma lines_of_compact_catalog:
  assumes "\<forall>t \<in> set tracks. 10 \<notin> set (title t) \<and> 10 \<notin> set (artist t)"
  shows "lines_of (build_compact_catalog tracks) = map compact_line tracks"
  unfolding build_compact_catalog_def
proof (rule lines_of_join, rule ballI)
  fix l assume "l \<in> set (map compact_line tracks)"
  then obtain t where t: "t \<in> set tracks" and l: "l = compact_line t" by auto
  from assms t have "10 \<notin> set (compact_line t)"
    by (simp add: compact_line_def str_of_int_no_lf)
  with l show "10 \<notin> set l \<and> l \<noteq> []" by (simp add: compact_line_nonempty)
qed

lemma compact_catalog_fields:
  assumes "map (\<lambda>t. (track_id t, title t, artist t)) tracks' =
           map (\<lambda>t. (track_id t, title t, artist t)) tracks"
  shows "build_compact_catalog tracks' = build_compact_catalog tracks"
proof -
  from assms have "map compact_line tracks' = map compact_line tracks"
  proof (induction tracks' arbitrary: tracks)
    case Nil
    then show ?case by simp
  next
    case (Cons t ts)
    then obtain u us where "tracks = u # us" by (cases tracks) auto
    with Cons show ?case by (simp add: compact_line_def)
  qed
  then show ?thesis by (simp add: build_compact_catalog_def)
qed

lemma str_of_int_0: "str_of_int 0 = [48]"
  by (simp add: str_of_int_def digits_of.simps [of 0])

text \<open>
  Claim C4, as the code has it. Up to \<open>MAX_TRACKS_FULL\<close> tracks the encoder selects the
  full-field mode, above it and up to \<open>MAX_TRACKS_COMPACT\<close> the compact mode, and in both
  it joins one line per input track with line feeds. The fields are written as they are, so
  the text has exactly one line per track when no field that is written contains a line
  feed. The compact text is a function of the id, the title and the artist alone: two
  libraries that agree on these three fields, whatever their ratings, genres and other
  fields, have the same compact catalog.
\<close>

theorem C4_encoder_modes:
  "(length tracks \<le> MAX_TRACKS_FULL \<longrightarrow>
      encode dec tracks g =
        Inr ((build_full_catalog tracks, U ''id|title|artist|album|genre|year|rating|plays'', tracks), g)
      \<and> ((\<forall>t \<in> set tracks. 10 \<notin> set (title t) \<and> 10 \<notin> set (artist t) \<and> 10 \<notin> set (album t) \<and>
             10 \<notin> set (genre t) \<and> 10 \<notin> set (year t) \<and> 10 \<notin> set (rating t) \<and> 10 \<notin> set (plays t))
           \<longrightarrow> lines_of (build_full_catalog tracks) = map full_line tracks
             \<and> length (lines_of (build_full_catalog tracks)) = length tracks))
   \<and> (MAX_TRACKS_FULL < length tracks \<and> length tracks \<le> MAX_TRACKS_COMPACT \<longrightarrow>
      encode dec tracks g = Inr ((build_compact_catalog tracks, U ''id|title|artist'', tracks), g)
      \<and> ((\<forall>t \<in> set tracks. 10 \<notin> set (title t) \<and> 10 \<notin> set (artist t))
           \<longrightarrow> lines_of (build_compact_catalog tracks) = map compact_line tracks
             \<and> length (lines_of (build_compact_catalog tracks)) = length tracks)
      \<and> (\<forall>tracks' :: track list. map (\<lambda>t. (track_id t, title t, artist t)) tracks' =
                     map (\<lambda>t. (track_id t, title t, artist t)) tracks
           \<longrightarrow> build_compact_catalog tracks' = build_compact_catalog tracks))"
proof (intro conjI impI allI)
  assume "length tracks \<le> MAX_TRACKS_FULL"
  then show "encode dec tracks g =
      Inr ((build_full_catalog tracks, U ''id|title|artist|album|genre|year|rating|plays'', tracks), g)"
    by (simp add: encode_def)
next
  assume "\<forall>t \<in> set tracks. 10 \<notin> set (title t) \<and> 10 \<notin> set (artist t) \<and> 10 \<notin> set (album t) \<and>
             10 \<notin> set (genre t) \<and> 10 \<notin> set (year t) \<and> 10 \<notin> set (rating t) \<and> 10 \<notin> set (plays t)"
  then have l: "lines_of (build_full_catalog tracks) = map full_line tracks"
    by (rule lines_of_full_catalog)
  show "lines_of (build_full_catalog tracks) = map full_line tracks" by (rule l)
  show "length (lines_of (build_full_catalog tracks)) = length tracks" by (simp add: l)
next
  assume "MAX_TRACKS_FULL < length tracks \<and> length tracks \<le> MAX_TRACKS_COMPACT"
  then show "encode dec tracks g = Inr ((build_compact_catalog tracks, U ''id|title|artist'', tracks), g)"
    by (simp add: encode_def)
next
  assume "\<forall>t \<in> set tracks. 10 \<notin> set (title t) \<and> 10 \<notin> set (artist t)"
  then have l: "lines_of (build_compact_catalog tracks) = map compact_line tracks"
    by (rule lines_of_compact_catalog)
  show "lines_of (build_compact_catalog tracks) = map compact_line tracks" by (rule l)
  show "length (lines_of (build_compact_catalog tracks)) = length tracks" by (simp add: l)
next
  fix tracks' :: "track list"
  assume "map (\<lambda>t. (track_id t, title t, artist t)) tracks' =
          map (\<lambda>t. (track_id t, title t, artist t)) tracks"
  then show "build_compact_catalog tracks' = build_compact_catalog tracks"
    by (rule compact_catalog_fields)
qed

theorem C4_encoder_modes_witness:
  "encode (\<lambda>c. None)
     [\<lparr>track_id = 0, title = U ''A'', artist = U ''X'', album = U ''L'', genre = U ''Rock'',
       year = U ''1999'', rating = U ''5'', plays = U ''12''\<rparr>] []
   = Inr ((U ''0|A|X|L|Rock|1999|'' @ [9733] @ U ''5|'' @ [9654] @ U ''12'',
           U ''id|title|artist|album|genre|year|rating|plays'',
           [\<lparr>track_id = 0, title = U ''A'', artist = U ''X'', album = U ''L'', genre = U ''Rock'',
             year = U ''1999'', rating = U ''5'', plays = U ''12''\<rparr>]), [])
   \<and> length (lines_of (build_full_catalog
       [\<lparr>track_id = 0, title = U ''A'', artist = U ''X'', album = U ''L'', genre = U ''Rock'',
         year = U ''1999'', rating = U ''5'', plays = U ''12''\<rparr>])) = 1
   \<and> length (lines_of (build_compact_catalog
       (replicate 1501 \<lparr>track_id = 0, title = U ''A'', artist = U ''X'', album = U ''L'',
         genre = U ''Rock'', year = U ''1999'', rating = U ''5'', plays = U ''12''\<rparr>))) = 1501
   \<and> build_compact_catalog
       (replicate 1501 \<lparr>track_id = 0, title = U ''A'', artist = U ''X'', album = U ''L'',
         genre = U ''Rock'', year = U ''1999'', rating = U ''5'', plays = U ''12''\<rparr>)
     = build_compact_catalog
       (replicate 1501 \<lparr>track_id = 0, title = U ''A'', artist = U ''X'', album = [],
         genre = U ''Jazz'', year = [], rating = U ''1'', plays = []\<rparr>)"
proof -
  let ?t = "\<lparr>track_id = 0, title = U ''A'', artist = U ''X'', album = U ''L'', genre = U ''Rock'',
       year = U ''1999'', rating = U ''5'', plays = U ''12''\<rparr>"
  let ?u = "\<lparr>track_id = 0, title = U ''A'', artist = U ''X'', album = [],
         genre = U ''Jazz'', year = [], rating = U ''1'', plays = []\<rparr>"
  have cat: "build_full_catalog [?t] = U ''0|A|X|L|Rock|1999|'' @ [9733] @ U ''5|'' @ [9654] @ U ''12''"
    by (simp add: build_full_catalog_def full_line_def str_of_int_0 U_def)
  have nolf: "\<forall>t \<in> set [?t]. 10 \<notin> set (title t) \<and> 10 \<notin> set (artist t) \<and> 10 \<notin> set (album t) \<and>
             10 \<notin> set (genre t) \<and> 10 \<notin> set (year t) \<and> 10 \<notin> set (rating t) \<and> 10 \<notin> set (plays t)"
    by (simp add: U_def)
  have nolf': "\<forall>t \<in> set (replicate 1501 ?t). 10 \<notin> set (title t) \<and> 10 \<notin> set (artist t)"
    by (simp add: U_def)
  have same: "map (\<lambda>t. (track_id t, title t, artist t)) (replicate 1501 ?u) =
              map (\<lambda>t. (track_id t, title t, artist t)) (replicate 1501 ?t)"
    by simp
  from C4_encoder_modes [of "[?t]" "\<lambda>c. None" "[]"] nolf cat
  have a: "encode (\<lambda>c. None) [?t] [] =
      Inr ((U ''0|A|X|L|Rock|1999|'' @ [9733] @ U ''5|'' @ [9654] @ U ''12'',
           U ''id|title|artist|album|genre|year|rating|plays'', [?t]), [])"
    and b: "length (lines_of (build_full_catalog [?t])) = 1"
    by (simp_all add: MAX_TRACKS_FULL_def)
  have range: "MAX_TRACKS_FULL < length (replicate 1501 ?t) \<and>
      length (replicate 1501 ?t) \<le> MAX_TRACKS_COMPACT"
    by (simp only: length_replicate MAX_TRACKS_FULL_def MAX_TRACKS_COMPACT_def) simp
  from C4_encoder_modes [of "replicate 1501 ?t" "\<lambda>c. None" "[]"] range nolf' same
  have c': "length (lines_of (build_compact_catalog (replicate 1501 ?t))) =
      length (replicate 1501 ?t)"
    and d: "build_compact_catalog (replicate 1501 ?u) = build_compact_catalog (replicate 1501 ?t)"
    by blast+
  from c' have c: "length (lines_of (build_compact_catalog (replicate 1501 ?t))) = 1501"
    by (simp only: length_replicate)
  from a b c d show ?thesis by (simp only: simp_thms)
qed

text \<open>
  The line count of the claim fails when a field contains a line feed: one track whose
  title has two lines yields a full catalog of two lines.
\<close>

theorem C4_line_feed_counterexample:
  "encode (\<lambda>c. None)
     [\<lparr>track_id = 0, title = U ''A\<newline>B'', artist = U ''X'', album = [], genre = [],
       year = [], rating = [], plays = []\<rparr>] []
   = Inr ((U ''0|A\<newline>B|X|||'' @ [124, 9733, 124, 9654],
           U ''id|title|artist|album|genre|year|rating|plays'',
           [\<lparr>track_id = 0, title = U ''A\<newline>B'', artist = U ''X'', album = [], genre = [],
             year = [], rating = [], plays = []\<rparr>]), [])
   \<and> lines_of (U ''0|A\<newline>B|X|||'' @ [124, 9733, 124, 9654]) =
       [U ''0|A'', U ''B|X|||'' @ [124, 9733, 124, 9654]]
   \<and> length (lines_of (U ''0|A\<newline>B|X|||'' @ [124, 9733, 124, 9654])) \<noteq> length [0::nat]"
  by (simp add: encode_def MAX_TRACKS_FULL_def build_full_catalog_def full_line_def str_of_int_0
      U_def lines_of_def)

section \<open>Properties of the materializer\<close>

lemma shuffle_Nil: "shuffle [] g = ([], g)"
  by (simp add: shuffle_def)

lemma shuffle_eq_Nil: "fst (shuffle x g) = [] \<longleftrightarrow> x = []"
  using shuffle_length [of x g] by (metis length_0_conv)

lemma resolve_length:
  "length (resolve all_tracks track_ids) =
     length (filter (\<lambda>i. i \<in> track_id ` set all_tracks) track_ids)"
proof -
  have "(id_to_track all_tracks i \<noteq> None) = (i \<in> track_id ` set all_tracks)" for i
    by (simp add: id_to_track_None)
  then show ?thesis
    by (simp add: resolve_def map_filter_def)
qed

lemma resolve_empty:
  "resolve all_tracks track_ids = [] \<longleftrightarrow> (\<forall>i \<in> set track_ids. i \<notin> track_id ` set all_tracks)"
  using resolve_length [of all_tracks track_ids]
  by (simp add: filter_empty_conv del: length_filter_conv_card) (metis length_0_conv filter_empty_conv)

lemma resolve_map:
  "map track_id (resolve all_tracks track_ids) =
     filter (\<lambda>i. i \<in> track_id ` set all_tracks) track_ids"
proof (induction track_ids)
  case Nil
  then show ?case by (simp add: resolve_def map_filter_def)
next
  case (Cons i ids)
  show ?case
  proof (cases "id_to_track all_tracks i")
    case None
    with Cons show ?thesis
      by (simp add: resolve_def map_filter_def id_to_track_None [symmetric])
  next
    case (Some t)
    then have "track_id t = i" and "i \<in> track_id ` set all_tracks"
      using id_to_track_Some [OF Some] by auto
    with Cons Some show ?thesis
      by (simp add: resolve_def map_filter_def id_to_track_None [symmetric])
  qed
qed


lemma resolve_filter:
  "resolve all_tracks (filter (\<lambda>i. i \<in> track_id ` set all_tracks) track_ids) =
     resolve all_tracks track_ids"
proof -
  have "(id_to_track all_tracks i \<noteq> None) = (i \<in> track_id ` set all_tracks)" for i
    by (simp add: id_to_track_None)
  then show ?thesis
    by (simp add: resolve_def map_filter_def)
qed

lemma run_applescript_log:
  "snd (snd (run_applescript pre osa script (w, issued))) = issued @ [script]"
  by (simp add: run_applescript_def split: prod.splits sum.splits)

lemma run_applescript_ok:
  assumes "\<exists>out err. fst (osa w script) = Inr (0, out, err)"
  shows "\<exists>out w'. run_applescript pre osa script (w, issued) = (Inr out, (w', issued @ [script]))"
proof -
  from assms obtain out err where "fst (osa w script) = Inr (0, out, err)" by blast
  then obtain w' where "osa w script = (Inr (0, out, err), w')"
    by (cases "osa w script") simp
  then show ?thesis by (simp add: run_applescript_def)
qed

lemma succeeds_on_Cons:
  "succeeds_on osa (x # xs) \<longleftrightarrow>
     (\<forall>w. \<exists>out err. fst (osa w x) = Inr (0, out, err)) \<and> succeeds_on osa xs"
  by (auto simp: succeeds_on_def)


lemma add_batches_ok:
  assumes "succeeds_on osa (map (\<lambda>c. batch_script safe_name (chunk_at selected c)) [b..<b + k])"
  shows "\<exists>w'. add_batches pre osa safe_name selected b k (w, issued) =
     (Inr (), (w', issued @ map (\<lambda>c. batch_script safe_name (chunk_at selected c)) [b..<b + k]))"
  using assms
proof (induction k arbitrary: b w issued)
  case 0
  then show ?case by simp
next
  case (Suc k)
  have up: "[b..<b + Suc k] = b # [Suc b..<Suc b + k]"
    by (simp add: upt_conv_Cons)
  from Suc.prems have first: "\<exists>out err. fst (osa w (batch_script safe_name (chunk_at selected b))) =
      Inr (0, out, err)"
    and rest: "succeeds_on osa (map (\<lambda>c. batch_script safe_name (chunk_at selected c))
      [Suc b..<Suc b + k])"
    by (simp_all only: up list.map succeeds_on_Cons)
  from first have "\<exists>out w1. run_applescript pre osa (batch_script safe_name (chunk_at selected b))
      (w, issued) = (Inr out, (w1, issued @ [batch_script safe_name (chunk_at selected b)]))"
    by (rule run_applescript_ok)
  then obtain out w1 where r: "run_applescript pre osa (batch_script safe_name (chunk_at selected b))
      (w, issued) = (Inr out, (w1, issued @ [batch_script safe_name (chunk_at selected b)]))" by blast
  from Suc.IH [OF rest, of w1 "issued @ [batch_script safe_name (chunk_at selected b)]"]
  obtain w' where "add_batches pre osa safe_name selected (Suc b) k
      (w1, issued @ [batch_script safe_name (chunk_at selected b)]) =
     (Inr (), (w', (issued @ [batch_script safe_name (chunk_at selected b)]) @
        map (\<lambda>c. batch_script safe_name (chunk_at selected c)) [Suc b..<Suc b + k]))" by blast
  with r up show ?case by (simp del: upt_Suc)
qed



lemma add_selected_ok:
  assumes "succeeds_on osa (scripts_for playlist_name selected)"
  shows "\<exists>w'. add_selected pre osa playlist_name selected (w, issued) =
     (Inr (length selected), (w', issued @ scripts_for playlist_name selected))"
proof (cases "selected = []")
  case True
  then show ?thesis by (simp add: add_selected_def scripts_for_def)
next
  case False
  let ?n = "escape playlist_name"
  let ?k = "(length selected + BATCH - 1) div BATCH"
  from assms False have first: "\<exists>out err. fst (osa w (create_script ?n)) = Inr (0, out, err)"
    and rest: "succeeds_on osa (map (\<lambda>c. batch_script ?n (chunk_at selected c)) [0..<0 + ?k])"
    by (simp_all add: scripts_for_def succeeds_on_Cons)
  from first have "\<exists>out w1. run_applescript pre osa (create_script ?n) (w, issued)
      = (Inr out, (w1, issued @ [create_script ?n]))"
    by (rule run_applescript_ok)
  then obtain out w1 where c: "run_applescript pre osa (create_script ?n) (w, issued)
      = (Inr out, (w1, issued @ [create_script ?n]))" by blast
  from add_batches_ok [OF rest, of pre w1 "issued @ [create_script ?n]"]
  obtain w' where b: "add_batches pre osa ?n selected 0 ?k (w1, issued @ [create_script ?n]) =
     (Inr (), (w', (issued @ [create_script ?n]) @
        map (\<lambda>c. batch_script ?n (chunk_at selected c)) [0..<0 + ?k]))" by blast
  from False c b show ?thesis
    by (simp add: add_selected_def scripts_for_def Let_def)
qed

lemma add_selected_count:
  "add_selected pre osa playlist_name selected s = (Inr n, s') \<Longrightarrow> n = length selected"
  by (auto simp: add_selected_def Let_def split: if_splits prod.splits sum.splits)

lemma create_playlist_run:
  assumes "succeeds_on osa (scripts_for playlist_name
     (if randomise then fst (shuffle (resolve all_tracks track_ids) g)
      else resolve all_tracks track_ids))"
  shows "\<exists>w'. create_playlist osa playlist_name track_ids all_tracks randomise g (w, issued) =
     (Inr (length (resolve all_tracks track_ids)),
      (if randomise then snd (shuffle (resolve all_tracks track_ids) g) else g),
      (w', issued @ scripts_for playlist_name
         (if randomise then fst (shuffle (resolve all_tracks track_ids) g)
          else resolve all_tracks track_ids)))"
proof -
  let ?order = "if randomise then fst (shuffle (resolve all_tracks track_ids) g)
          else resolve all_tracks track_ids"
  from add_selected_ok [OF assms, of "[]" w issued]
  obtain w' where "add_selected [] osa playlist_name ?order (w, issued) =
     (Inr (length ?order), (w', issued @ scripts_for playlist_name ?order))" by blast
  moreover have "length ?order = length (resolve all_tracks track_ids)"
    by (simp add: shuffle_length)
  ultimately show ?thesis
    by (auto simp: create_playlist_def Let_def split: prod.splits)
qed

lemma create_swinsian_playlist_run:
  assumes "succeeds_on osa (scripts_for playlist_name (fst (shuffle (resolve all_tracks track_ids) g)))"
  shows "\<exists>w'. create_swinsian_playlist osa playlist_name track_ids all_tracks g (w, issued) =
     (Inr (length (resolve all_tracks track_ids)),
      snd (shuffle (resolve all_tracks track_ids) g),
      (w', issued @ scripts_for playlist_name (fst (shuffle (resolve all_tracks track_ids) g))))"
proof -
  let ?order = "fst (shuffle (resolve all_tracks track_ids) g)"
  from add_selected_ok [OF assms, of "U ''AppleScript error: ''" w issued]
  obtain w' where "add_selected (U ''AppleScript error: '') osa playlist_name ?order (w, issued) =
     (Inr (length ?order), (w', issued @ scripts_for playlist_name ?order))" by blast
  moreover have "length ?order = length (resolve all_tracks track_ids)"
    by (simp add: shuffle_length)
  ultimately show ?thesis
    by (auto simp: create_swinsian_playlist_def Let_def split: prod.splits)
qed



lemma create_playlist_count:
  "fst (create_playlist osa playlist_name track_ids all_tracks randomise g s) = Inr n
     \<Longrightarrow> n = length (resolve all_tracks track_ids)"
  using shuffle_length [of "resolve all_tracks track_ids" g]
  by (auto simp: create_playlist_def Let_def split: prod.splits if_splits dest!: add_selected_count)

lemma create_swinsian_playlist_count:
  "fst (create_swinsian_playlist osa playlist_name track_ids all_tracks g s) = Inr n
     \<Longrightarrow> n = length (resolve all_tracks track_ids)"
  using shuffle_length [of "resolve all_tracks track_ids" g]
  by (auto simp: create_swinsian_playlist_def Let_def split: prod.splits dest!: add_selected_count)


lemma example_ids: "track_id ` set example_library = {0, 1, 2}"
  by (auto simp: example_library_def example_track_def)

lemma example_resolve_2_0_9:
  "resolve example_library [2, 0, 9] = [example_track 2 ''C'' ''Z'', example_track 0 ''A'' ''X'']"
  by (simp add: resolve_def map_filter_def id_to_track_def example_library_def example_track_def)


lemma escape_Test: "escape (U ''Test'') = U ''Test''"
  by (simp add: escape_def U_def)

lemma scripts_for_two:
  "scripts_for (U ''Test'') [a, b] =
     [create_script (U ''Test''), batch_script (U ''Test'') [a, b]]"
  by (simp add: scripts_for_def escape_Test BATCH_def chunk_at_def)


lemma create_script_text:
  \<open>create_script n =
     U ''\<newline>tell application "Swinsian" to activate\<newline>delay 0.5\<newline>tell application "System Events"\<newline>    tell process "Swinsian"\<newline>        click menu item "New Playlist" of menu "File" of menu bar 1\<newline>        delay 0.5\<newline>        keystroke "'' @
     n @ U ''"\<newline>        key code 36\<newline>    end tell\<newline>end tell''\<close>
  by (simp add: create_script_def U_def)


lemma example_create_text:
  \<open>create_script (U ''Test'') =
     U ''\<newline>tell application "Swinsian" to activate\<newline>delay 0.5\<newline>tell application "System Events"\<newline>    tell process "Swinsian"\<newline>        click menu item "New Playlist" of menu "File" of menu bar 1\<newline>        delay 0.5\<newline>        keystroke "Test"\<newline>        key code 36\<newline>    end tell\<newline>end tell''\<close>
  by (simp add: create_script_def U_def)

lemma example_batch_C_A:
  \<open>batch_script (U ''Test'') [example_track 2 ''C'' ''Z'', example_track 0 ''A'' ''X''] =
     U ''tell application "Swinsian"\<newline>\<newline>        set found to (every track whose name is "C" and artist is "Z")\<newline>        if (count of found) > 0 then add tracks {item 1 of found} to normal playlist "Test"\<newline>\<newline>        set found to (every track whose name is "A" and artist is "X")\<newline>        if (count of found) > 0 then add tracks {item 1 of found} to normal playlist "Test"\<newline>end tell''\<close>
  by (simp add: batch_script_def batch_item_def escape_def example_track_def U_def)

lemma example_batch_A_C:
  \<open>batch_script (U ''Test'') [example_track 0 ''A'' ''X'', example_track 2 ''C'' ''Z''] =
     U ''tell application "Swinsian"\<newline>\<newline>        set found to (every track whose name is "A" and artist is "X")\<newline>        if (count of found) > 0 then add tracks {item 1 of found} to normal playlist "Test"\<newline>\<newline>        set found to (every track whose name is "C" and artist is "Z")\<newline>        if (count of found) > 0 then add tracks {item 1 of found} to normal playlist "Test"\<newline>end tell''\<close>
  by (simp add: batch_script_def batch_item_def escape_def example_track_def U_def)

lemma subprocess_run_quiet:
  "argv_error script = None \<Longrightarrow> \<exists>out err. fst (subprocess_run quiet_bridge w script) = Inr (0, out, err)"
  by (simp add: subprocess_run_def quiet_bridge_def)

lemma example_scripts_accepted:
  "argv_error (create_script (U ''Test'')) = None"
  "argv_error (batch_script (U ''Test'') [example_track 2 ''C'' ''Z'', example_track 0 ''A'' ''X'']) = None"
  "argv_error (batch_script (U ''Test'') [example_track 0 ''A'' ''X'', example_track 2 ''C'' ''Z'']) = None"
  unfolding example_create_text example_batch_C_A example_batch_A_C
  by (simp_all add: argv_error_def unencodable_def U_def)

lemma example_succeeds_C_A:
  "succeeds_on (subprocess_run quiet_bridge)
     (scripts_for (U ''Test'') [example_track 2 ''C'' ''Z'', example_track 0 ''A'' ''X''])"
  by (simp only: scripts_for_two succeeds_on_Cons succeeds_on_def list.set empty_iff ball_simps simp_thms)
    (simp add: subprocess_run_quiet example_scripts_accepted)



text \<open>
  Claim C7. When no curated id occurs among the ids of the current tracks, the resolved
  sequence is empty and both materializers return 0 with the generator and the bridge
  state as they were: the list of executed scripts is unchanged, so neither the script that
  creates the playlist nor any batch script was issued.
\<close>

theorem C7_empty_resolution_no_calls:
  assumes "\<forall>i \<in> set track_ids. i \<notin> track_id ` set all_tracks"
  shows "create_playlist osa playlist_name track_ids all_tracks randomise g s = (Inr 0, g, s)
       \<and> create_swinsian_playlist osa playlist_name track_ids all_tracks g s = (Inr 0, g, s)"
proof -
  from assms have "resolve all_tracks track_ids = []"
    by (simp add: resolve_empty)
  then show ?thesis
    by (simp add: create_playlist_def create_swinsian_playlist_def shuffle_Nil add_selected_def)
qed

theorem C7_empty_resolution_no_calls_witness:
  "create_playlist canned (U ''Test'') [9, 7] example_library True [3] ([(1, [], U ''no'')], [])
     = (Inr 0, [3], ([(1, [], U ''no'')], []))
   \<and> create_swinsian_playlist canned (U ''Test'') [9, 7] example_library [3] ([(1, [], U ''no'')], [])
     = (Inr 0, [3], ([(1, [], U ''no'')], []))"
  using C7_empty_resolution_no_calls [of "[9, 7]" example_library canned "U ''Test''" True "[3]"
      "([(1, [], U ''no'')], [])"]
  by (simp add: example_ids)

text \<open>
  Claim C8. The resolved tracks carry exactly the curated ids that occur in the library, in
  their order, and a materializer run on the curated ids is the run on the ids that occur
  in the library: an id without a record changes neither the result, nor the generator,
  nor the scripts handed to the bridge, so it raises nothing. Whenever a materializer
  returns, it returns the number of resolved tracks, and it does return, with the scripts
  of the final order issued, when these scripts succeed on the bridge. The first of them is
  the script that creates the playlist; it types the escaped playlist name. In the example
  of the specification, ids 2, 0, 9 on the library with ids 0, 1, 2 resolve to the tracks 2
  and 0, the count is 2, and the script types the name Test.
\<close>

theorem C8_unmatched_ids_dropped:
  \<open>map track_id (resolve all_tracks track_ids) =
      filter (\<lambda>i. i \<in> track_id ` set all_tracks) track_ids
   \<and> create_playlist osa playlist_name track_ids all_tracks randomise g s =
       create_playlist osa playlist_name
         (filter (\<lambda>i. i \<in> track_id ` set all_tracks) track_ids) all_tracks randomise g s
   \<and> create_swinsian_playlist osa playlist_name track_ids all_tracks g s =
       create_swinsian_playlist osa playlist_name
         (filter (\<lambda>i. i \<in> track_id ` set all_tracks) track_ids) all_tracks g s
   \<and> (\<forall>n. fst (create_playlist osa playlist_name track_ids all_tracks randomise g s) = Inr n \<longrightarrow>
          n = length (filter (\<lambda>i. i \<in> track_id ` set all_tracks) track_ids))
   \<and> (\<forall>n. fst (create_swinsian_playlist osa playlist_name track_ids all_tracks g s) = Inr n \<longrightarrow>
          n = length (filter (\<lambda>i. i \<in> track_id ` set all_tracks) track_ids))
   \<and> (succeeds_on osa (scripts_for playlist_name
          (if randomise then fst (shuffle (resolve all_tracks track_ids) g)
           else resolve all_tracks track_ids)) \<longrightarrow>
        fst (create_playlist osa playlist_name track_ids all_tracks randomise g s) =
          Inr (length (filter (\<lambda>i. i \<in> track_id ` set all_tracks) track_ids))
      \<and> snd (snd (snd (create_playlist osa playlist_name track_ids all_tracks randomise g s))) =
          snd s @ scripts_for playlist_name
            (if randomise then fst (shuffle (resolve all_tracks track_ids) g)
             else resolve all_tracks track_ids))
   \<and> (succeeds_on osa (scripts_for playlist_name (fst (shuffle (resolve all_tracks track_ids) g))) \<longrightarrow>
        fst (create_swinsian_playlist osa playlist_name track_ids all_tracks g s) =
          Inr (length (filter (\<lambda>i. i \<in> track_id ` set all_tracks) track_ids))
      \<and> snd (snd (snd (create_swinsian_playlist osa playlist_name track_ids all_tracks g s))) =
          snd s @ scripts_for playlist_name (fst (shuffle (resolve all_tracks track_ids) g)))
   \<and> (selected \<noteq> [] \<longrightarrow> hd (scripts_for playlist_name selected) =
        U ''\<newline>tell application "Swinsian" to activate\<newline>delay 0.5\<newline>tell application "System Events"\<newline>    tell process "Swinsian"\<newline>        click menu item "New Playlist" of menu "File" of menu bar 1\<newline>        delay 0.5\<newline>        keystroke "'' @
        escape playlist_name @ U ''"\<newline>        key code 36\<newline>    end tell\<newline>end tell'')\<close>
proof -
  let ?in = "\<lambda>i. i \<in> track_id ` set all_tracks"
  obtain w issued where s: "s = (w, issued)" by (cases s)
  have r: "resolve all_tracks (filter ?in track_ids) = resolve all_tracks track_ids"
    by (rule resolve_filter)
  have p1: "map track_id (resolve all_tracks track_ids) = filter ?in track_ids"
    by (rule resolve_map)
  have p2: "create_playlist osa playlist_name track_ids all_tracks randomise g s =
       create_playlist osa playlist_name (filter ?in track_ids) all_tracks randomise g s"
    by (simp add: create_playlist_def r)
  have p3: "create_swinsian_playlist osa playlist_name track_ids all_tracks g s =
       create_swinsian_playlist osa playlist_name (filter ?in track_ids) all_tracks g s"
    by (simp add: create_swinsian_playlist_def r)
  have p4: "\<forall>n. fst (create_playlist osa playlist_name track_ids all_tracks randomise g s) = Inr n \<longrightarrow>
          n = length (filter ?in track_ids)"
    using create_playlist_count [of osa playlist_name track_ids all_tracks randomise g s]
    by (simp add: resolve_length)
  have p5: "\<forall>n. fst (create_swinsian_playlist osa playlist_name track_ids all_tracks g s) = Inr n \<longrightarrow>
          n = length (filter ?in track_ids)"
    using create_swinsian_playlist_count [of osa playlist_name track_ids all_tracks g s]
    by (simp add: resolve_length)
  have p6: "succeeds_on osa (scripts_for playlist_name
          (if randomise then fst (shuffle (resolve all_tracks track_ids) g)
           else resolve all_tracks track_ids)) \<longrightarrow>
        fst (create_playlist osa playlist_name track_ids all_tracks randomise g s) =
          Inr (length (filter ?in track_ids))
      \<and> snd (snd (snd (create_playlist osa playlist_name track_ids all_tracks randomise g s))) =
          snd s @ scripts_for playlist_name
            (if randomise then fst (shuffle (resolve all_tracks track_ids) g)
             else resolve all_tracks track_ids)"
  proof
    assume "succeeds_on osa (scripts_for playlist_name
          (if randomise then fst (shuffle (resolve all_tracks track_ids) g)
           else resolve all_tracks track_ids))"
    from create_playlist_run [OF this, of w issued] show
      "fst (create_playlist osa playlist_name track_ids all_tracks randomise g s) =
          Inr (length (filter ?in track_ids))
      \<and> snd (snd (snd (create_playlist osa playlist_name track_ids all_tracks randomise g s))) =
          snd s @ scripts_for playlist_name
            (if randomise then fst (shuffle (resolve all_tracks track_ids) g)
             else resolve all_tracks track_ids)"
      by (auto simp: s resolve_length)
  qed
  have p7: "succeeds_on osa (scripts_for playlist_name (fst (shuffle (resolve all_tracks track_ids) g))) \<longrightarrow>
        fst (create_swinsian_playlist osa playlist_name track_ids all_tracks g s) =
          Inr (length (filter ?in track_ids))
      \<and> snd (snd (snd (create_swinsian_playlist osa playlist_name track_ids all_tracks g s))) =
          snd s @ scripts_for playlist_name (fst (shuffle (resolve all_tracks track_ids) g))"
  proof
    assume "succeeds_on osa (scripts_for playlist_name (fst (shuffle (resolve all_tracks track_ids) g)))"
    from create_swinsian_playlist_run [OF this, of w issued] show
      "fst (create_swinsian_playlist osa playlist_name track_ids all_tracks g s) =
          Inr (length (filter ?in track_ids))
      \<and> snd (snd (snd (create_swinsian_playlist osa playlist_name track_ids all_tracks g s))) =
          snd s @ scripts_for playlist_name (fst (shuffle (resolve all_tracks track_ids) g))"
      by (auto simp: s resolve_length)
  qed
  have p8: \<open>selected \<noteq> [] \<longrightarrow> hd (scripts_for playlist_name selected) =
        U ''\<newline>tell application "Swinsian" to activate\<newline>delay 0.5\<newline>tell application "System Events"\<newline>    tell process "Swinsian"\<newline>        click menu item "New Playlist" of menu "File" of menu bar 1\<newline>        delay 0.5\<newline>        keystroke "'' @
        escape playlist_name @ U ''"\<newline>        key code 36\<newline>    end tell\<newline>end tell''\<close>
    by (simp add: scripts_for_def create_script_text)
  from p1 p2 p3 p4 p5 p6 p7 p8 show ?thesis by (intro conjI)
qed

theorem C8_unmatched_ids_dropped_witness:
  \<open>map track_id (resolve example_library [2, 0, 9]) = [2, 0]
   \<and> fst (create_playlist (subprocess_run quiet_bridge) (U ''Test'') [2, 0, 9] example_library False []
         ((), [])) = Inr 2
   \<and> create_playlist (subprocess_run quiet_bridge) (U ''Test'') [2, 0, 9] example_library False []
         ((), [])
       = (Inr 2, [], ((),
           [U ''\<newline>tell application "Swinsian" to activate\<newline>delay 0.5\<newline>tell application "System Events"\<newline>    tell process "Swinsian"\<newline>        click menu item "New Playlist" of menu "File" of menu bar 1\<newline>        delay 0.5\<newline>        keystroke "Test"\<newline>        key code 36\<newline>    end tell\<newline>end tell'',
            U ''tell application "Swinsian"\<newline>\<newline>        set found to (every track whose name is "C" and artist is "Z")\<newline>        if (count of found) > 0 then add tracks {item 1 of found} to normal playlist "Test"\<newline>\<newline>        set found to (every track whose name is "A" and artist is "X")\<newline>        if (count of found) > 0 then add tracks {item 1 of found} to normal playlist "Test"\<newline>end tell'']))
   \<and> fst (create_playlist (subprocess_run quiet_bridge) [84, 0, 116] [2, 0, 9] example_library False []
         ((), [])) = Inl EmbeddedNul\<close>
proof -
  let ?osa = "subprocess_run quiet_bridge"
  have ok: "succeeds_on ?osa (scripts_for (U ''Test'')
      (if False then fst (shuffle (resolve example_library [2, 0, 9]) [])
       else resolve example_library [2, 0, 9]))"
    by (simp only: if_False example_resolve_2_0_9 example_succeeds_C_A)
  have f: "filter (\<lambda>i. i \<in> track_id ` set example_library) [2, 0, 9] = [2, 0]"
    by (simp add: example_ids)
  note inst = C8_unmatched_ids_dropped [of example_library "[2, 0, 9]" ?osa "U ''Test''" False "[]"
      "((), [])"]
  from inst have "map track_id (resolve example_library [2, 0, 9]) =
      filter (\<lambda>i. i \<in> track_id ` set example_library) [2, 0, 9]"
    by (rule conjunct1)
  then have a: "map track_id (resolve example_library [2, 0, 9]) = [2, 0]"
    by (simp only: f)
  from inst ok
  have "fst (create_playlist ?osa (U ''Test'') [2, 0, 9] example_library False [] ((), []))
       = Inr (length (filter (\<lambda>i. i \<in> track_id ` set example_library) [2, 0, 9]))"
    by blast
  then have b: "fst (create_playlist ?osa (U ''Test'') [2, 0, 9] example_library False [] ((), []))
       = Inr 2"
    by (simp only: f) simp
  have c: "create_playlist ?osa (U ''Test'') [2, 0, 9] example_library False [] ((), [])
       = (Inr 2, [], ((), [create_script (U ''Test''),
            batch_script (U ''Test'') [example_track 2 ''C'' ''Z'', example_track 0 ''A'' ''X'']]))"
    using create_playlist_run [OF ok, of "()" "[]"]
    by (simp add: example_resolve_2_0_9 scripts_for_two)
  have d: "fst (create_playlist ?osa [84, 0, 116] [2, 0, 9] example_library False [] ((), []))
       = Inl EmbeddedNul"
    by (simp add: create_playlist_def example_resolve_2_0_9 add_selected_def run_applescript_def
        subprocess_run_def argv_error_def unencodable_def create_script_def escape_def U_def)
  from a b c d show ?thesis
    by (simp only: example_create_text example_batch_C_A simp_thms)
qed






section \<open>Properties of the reply parser\<close>

lemma dropWhile_keep: "\<not> P x \<Longrightarrow> dropWhile P (xs @ x # ys) = dropWhile P xs @ x # ys"
  by (induction xs) auto

lemma drop_newline_keep: "x \<noteq> 10 \<Longrightarrow> drop_newline (b @ x # ys) = drop_newline b @ x # ys"
  by (cases b) (auto simp: drop_newline_def)

lemma set_drop_newline: "set (drop_newline b) \<subseteq> set b"
  by (cases b) (auto simp: drop_newline_def)

lemma not_space_braces: "\<not> isspace 123" "\<not> isspace 125" "\<not> isspace 96"
  by (simp_all add: isspace_def)

lemma strip_around:
  assumes "\<not> isspace x" and "\<not> isspace y"
  shows "strip (a @ x # mid @ y # b) =
     dropWhile isspace a @ x # mid @ y # rev (dropWhile isspace (rev b))"
proof -
  have "dropWhile isspace (a @ x # mid @ y # b) = dropWhile isspace a @ x # mid @ y # b"
    using assms(1) by (rule dropWhile_keep)
  moreover have "dropWhile isspace (rev b @ y # rev mid @ x # rev (dropWhile isspace a)) =
      dropWhile isspace (rev b) @ y # rev mid @ x # rev (dropWhile isspace a)"
    using assms(2) by (rule dropWhile_keep)
  ultimately show ?thesis by (simp add: strip_def)
qed

lemma strip_opening_fence_keep:
  assumes "123 \<notin> set a"
  shows "\<exists>a'. strip_opening_fence (a @ 123 # ys) = a' @ 123 # ys \<and> set a' \<subseteq> set a"
proof (cases "take 3 (a @ 123 # ys) = [96, 96, 96]")
  case False
  then show ?thesis by (auto simp: strip_opening_fence_def)
next
  case True
  have "\<exists>a2. a = 96 # 96 # 96 # a2"
  proof (cases a)
    case Nil
    with True show ?thesis by simp
  next
    case c1: (Cons x1 t1)
    show ?thesis
    proof (cases t1)
      case Nil
      with True c1 show ?thesis by simp
    next
      case c2: (Cons x2 t2)
      show ?thesis
      proof (cases t2)
        case Nil
        with True c1 c2 show ?thesis by simp
      next
        case (Cons x3 t3)
        with True c1 c2 show ?thesis by simp
      qed
    qed
  qed
  then obtain a2 where a: "a = 96 # 96 # 96 # a2" by blast
  have "\<not> is_lower 123" by (simp add: is_lower_def)
  then have "dropWhile is_lower (a2 @ 123 # ys) = dropWhile is_lower a2 @ 123 # ys"
    by (rule dropWhile_keep)
  then have "strip_opening_fence (a @ 123 # ys) = drop_newline (dropWhile is_lower a2) @ 123 # ys"
    by (simp add: strip_opening_fence_def a drop_newline_keep)
  moreover have "set (drop_newline (dropWhile is_lower a2)) \<subseteq> set a"
    using set_drop_newline [of "dropWhile is_lower a2"] set_dropWhileD [of _ is_lower a2]
    by (auto simp: a)
  ultimately show ?thesis by blast
qed

lemma starts_with_fence:
  assumes "take 3 (r @ 125 # zs) = [96, 96, 96 :: nat]"
  shows "\<exists>r2. r = 96 # 96 # 96 # r2"
proof (cases r)
  case Nil
  with assms show ?thesis by simp
next
  case c1: (Cons x1 t1)
  show ?thesis
  proof (cases t1)
    case Nil
    with assms c1 show ?thesis by simp
  next
    case c2: (Cons x2 t2)
    show ?thesis
    proof (cases t2)
      case Nil
      with assms c1 c2 show ?thesis by simp
    next
      case (Cons x3 t3)
      with assms c1 c2 show ?thesis by simp
    qed
  qed
qed

lemma strip_closing_fence_keep:
  "\<exists>b'. strip_closing_fence (xs @ 125 # b) = xs @ 125 # b' \<and> set b' \<subseteq> set b"
proof -
  let ?r = "rev b @ 125 # rev xs"
  have r: "rev (xs @ 125 # b) = ?r" by simp
  show ?thesis
  proof (cases "take 3 ?r = [96, 96, 96]")
    case True
    from starts_with_fence [OF True] obtain r2 where r2: "rev b = 96 # 96 # 96 # r2" by blast
    then have "strip_closing_fence (xs @ 125 # b) = rev (drop_newline (r2 @ 125 # rev xs))"
      by (simp add: strip_closing_fence_def Let_def)
    also have "\<dots> = xs @ 125 # rev (drop_newline r2)"
      by (simp add: drop_newline_keep)
    finally have "strip_closing_fence (xs @ 125 # b) = xs @ 125 # rev (drop_newline r2)" .
    moreover have "set (rev (drop_newline r2)) \<subseteq> set b"
      using set_drop_newline [of r2] r2 by (metis set_rev set_subset_Cons subset_trans)
    ultimately show ?thesis by blast
  next
    case False
    show ?thesis
    proof (cases "take 4 ?r = [10, 96, 96, 96]")
      case no: False
      with False show ?thesis by (auto simp: strip_closing_fence_def Let_def)
    next
      case yes: True
      have "\<exists>r2. rev b = 10 # 96 # 96 # 96 # r2"
      proof (cases "rev b")
        case Nil
        with yes show ?thesis by simp
      next
        case (Cons x1 t1)
        with yes have "x1 = 10" and "take 3 (t1 @ 125 # rev xs) = [96, 96, 96]" by simp_all
        with starts_with_fence [of t1 "rev xs"] Cons show ?thesis by auto
      qed
      then obtain r2 where r2: "rev b = 10 # 96 # 96 # 96 # r2" by blast
      with False have "strip_closing_fence (xs @ 125 # b) =
          rev (10 # drop_newline (r2 @ 125 # rev xs))"
        by (simp add: strip_closing_fence_def Let_def)
      also have "\<dots> = xs @ 125 # (rev (drop_newline r2) @ [10])"
        by (simp add: drop_newline_keep)
      finally have "strip_closing_fence (xs @ 125 # b) = xs @ 125 # (rev (drop_newline r2) @ [10])" .
      moreover have "set (rev (drop_newline r2) @ [10]) \<subseteq> set b"
      proof -
        have "set b = set (rev b)" by simp
        also have "\<dots> = insert 10 (insert 96 (set r2))" by (simp add: r2)
        finally show ?thesis using set_drop_newline [of r2] by auto
      qed
      ultimately show ?thesis by blast
    qed
  qed
qed

lemma brace_span_found:
  assumes "123 \<notin> set a" and "125 \<notin> set b"
  shows "brace_span (a @ 123 # mid @ 125 # b) = Some (123 # mid @ [125])"
proof -
  have "dropWhile (\<lambda>c. c \<noteq> 123) (a @ 123 # mid @ 125 # b) = 123 # mid @ 125 # b"
    using assms(1) by (induction a) auto
  moreover have "dropWhile (\<lambda>c. c \<noteq> 125) (rev b @ 125 # rev mid @ [123]) = 125 # rev mid @ [123]"
    using assms(2) by (induction b rule: rev_induct) auto
  ultimately show ?thesis by (simp add: brace_span_def)
qed

lemma brace_span_None:
  "brace_span raw = None \<longleftrightarrow> \<not> (\<exists>a mid b. raw = a @ 123 # mid @ 125 # b)"
proof
  assume none: "brace_span raw = None"
  show "\<not> (\<exists>a mid b. raw = a @ 123 # mid @ 125 # b)"
  proof
    assume "\<exists>a mid b. raw = a @ 123 # mid @ 125 # b"
    then obtain a mid b where raw: "raw = a @ 123 # mid @ 125 # b" by blast
    have "dropWhile (\<lambda>c. c \<noteq> 123) raw = dropWhile (\<lambda>c. c \<noteq> 123) a @ 123 # mid @ 125 # b"
      unfolding raw by (rule dropWhile_keep) simp
    then have "125 \<in> set (dropWhile (\<lambda>c. c \<noteq> 123) raw)" by simp
    then have "\<exists>x \<in> set (rev (dropWhile (\<lambda>c. c \<noteq> 123) raw)). \<not> x \<noteq> 125"
      by (intro bexI [of _ 125]) simp_all
    then have ne: "dropWhile (\<lambda>c. c \<noteq> 125) (rev (dropWhile (\<lambda>c. c \<noteq> 123) raw)) \<noteq> []"
      unfolding dropWhile_eq_Nil_conv by blast
    have "rev (dropWhile (\<lambda>c. c \<noteq> 125) (rev (dropWhile (\<lambda>c. c \<noteq> 123) raw))) = []"
      using none unfolding brace_span_def Let_def by (metis option.distinct(1))
    with ne show False by (simp only: rev_is_Nil_conv)
  qed
next
  assume no: "\<not> (\<exists>a mid b. raw = a @ 123 # mid @ 125 # b)"
  let ?t = "dropWhile (\<lambda>c. c \<noteq> 123) raw"
  have "125 \<notin> set ?t"
  proof
    assume in_t: "125 \<in> set ?t"
    then have ne: "?t \<noteq> []" by (metis empty_iff list.set(1))
    then have "\<not> hd ?t \<noteq> 123" by (rule hd_dropWhile)
    with ne obtain rest where t: "?t = 123 # rest"
      by (cases ?t) (simp_all only: list.sel, blast+)
    with in_t have "125 \<in> set rest" by simp
    then obtain mid b where "rest = mid @ 125 # b" by (meson split_list)
    with t have "raw = takeWhile (\<lambda>c. c \<noteq> 123) raw @ 123 # mid @ 125 # b"
      by (metis takeWhile_dropWhile_id)
    with no show False by blast
  qed
  then have "dropWhile (\<lambda>c. c \<noteq> 125) (rev ?t) = []"
    unfolding dropWhile_eq_Nil_conv by auto
  then show "brace_span raw = None" by (simp add: brace_span_def)
qed

lemma fence_stripped_bare: "fence_stripped (123 # mid @ [125]) = 123 # mid @ [125]"
proof -
  have "strip ([] @ 123 # mid @ 125 # []) = 123 # mid @ [125]"
    by (subst strip_around) (simp_all add: not_space_braces)
  then show ?thesis
    by (simp add: fence_stripped_def strip_opening_fence_def strip_closing_fence_def)
qed

lemma fence_stripped_fenced:
  assumes "list_all is_lower tag"
  shows "fence_stripped ([96, 96, 96] @ tag @ [10] @ (123 # mid @ [125]) @ [10, 96, 96, 96]) =
     123 # mid @ [125]"
proof -
  let ?j = "123 # mid @ [125]"
  have "strip ([] @ 96 # ([96, 96] @ tag @ [10] @ ?j @ [10, 96, 96]) @ 96 # []) =
      96 # ([96, 96] @ tag @ [10] @ ?j @ [10, 96, 96]) @ [96]"
    by (subst strip_around) (simp_all add: not_space_braces)
  then have s: "strip ([96, 96, 96] @ tag @ [10] @ ?j @ [10, 96, 96, 96]) =
      [96, 96, 96] @ tag @ [10] @ ?j @ [10, 96, 96, 96]"
    by simp
  have "\<not> is_lower 10" by (simp add: is_lower_def)
  moreover from assms have "\<forall>x \<in> set tag. is_lower x" by (simp add: list_all_iff)
  ultimately have "dropWhile is_lower (tag @ 10 # ?j @ [10, 96, 96, 96]) = 10 # ?j @ [10, 96, 96, 96]"
    by (simp add: dropWhile_append2)
  then have o: "strip_opening_fence ([96, 96, 96] @ tag @ [10] @ ?j @ [10, 96, 96, 96]) =
      ?j @ [10, 96, 96, 96]"
    by (simp add: strip_opening_fence_def drop_newline_def)
  have c: "strip_closing_fence (?j @ [10, 96, 96, 96]) = ?j"
    by (simp add: strip_closing_fence_def drop_newline_def)
  show ?thesis
    unfolding fence_stripped_def s o c ..
qed

lemma fence_stripped_prose:
  assumes "123 \<notin> set a"
  shows "\<exists>a' b'. fence_stripped (a @ 123 # mid @ 125 # b) = a' @ 123 # mid @ 125 # b' \<and>
     set a' \<subseteq> set a \<and> set b' \<subseteq> set b"
proof -
  let ?a1 = "dropWhile isspace a" and ?b1 = "rev (dropWhile isspace (rev b))"
  have s: "strip (a @ 123 # mid @ 125 # b) = ?a1 @ 123 # mid @ 125 # ?b1"
    by (rule strip_around) (simp_all add: not_space_braces)
  have a1: "set ?a1 \<subseteq> set a" by (auto dest: set_dropWhileD)
  have b1: "set ?b1 \<subseteq> set b" by (auto dest: set_dropWhileD)
  from a1 assms have "123 \<notin> set ?a1" by blast
  from strip_opening_fence_keep [OF this, of "mid @ 125 # ?b1"]
  obtain a2 where o: "strip_opening_fence (?a1 @ 123 # mid @ 125 # ?b1) = a2 @ 123 # mid @ 125 # ?b1"
    and a2: "set a2 \<subseteq> set ?a1" by blast
  from strip_closing_fence_keep [of "a2 @ 123 # mid" ?b1]
  obtain b2 where c: "strip_closing_fence (a2 @ 123 # mid @ 125 # ?b1) = a2 @ 123 # mid @ 125 # b2"
    and b2: "set b2 \<subseteq> set ?b1" by auto
  have "fence_stripped (a @ 123 # mid @ 125 # b) = a2 @ 123 # mid @ 125 # b2"
    unfolding fence_stripped_def s o c ..
  with a1 a2 b1 b2 show ?thesis by blast
qed

lemma curation_result_object:
  "curation_result (JObj members) =
     Inr (member_or members (U ''playlist_name'') (JStr (U ''AI Playlist'')),
          member_or members (U ''ids'') (JArr []),
          member_or members (U ''rationale'') (JStr []))"
  by (simp add: curation_result_def)

lemma curation_result_Inr:
  "curation_result data = Inr r \<Longrightarrow> \<exists>members. data = JObj members"
  by (cases data) (simp_all add: curation_result_def)

lemma curation_result_Inl:
  "curation_result data = Inl e \<Longrightarrow> e = AttributeError"
  by (cases data) (simp_all add: curation_result_def)

lemma member_or_missing:
  "key \<notin> fst ` set members \<Longrightarrow> member_or members key dflt = dflt"
proof -
  assume "key \<notin> fst ` set members"
  then have "map_of (rev members) key = None"
    by (simp add: map_of_eq_None_iff)
  then show ?thesis by (simp add: member_or_def)
qed

lemma decode_reply_direct:
  "loads raw = Inr data \<Longrightarrow> decode_reply msg loads raw = Inr data"
  by (simp add: decode_reply_def)

lemma decode_reply_fallback:
  "loads raw = Inl Malformed \<Longrightarrow> brace_span raw = Some m \<Longrightarrow> loads m = Inr data \<Longrightarrow>
     decode_reply msg loads raw = Inr data"
  by (simp add: decode_reply_def)

lemma decode_reply_unexpected:
  "decode_reply msg loads raw = Inl (UnexpectedFormat m) \<longleftrightarrow>
     m = msg @ raw \<and> loads raw = Inl Malformed \<and> brace_span raw = None"
  by (auto simp: decode_reply_def split: sum.splits decode_failure.splits option.splits)

lemma parse_reply_unexpected:
  "parse_reply msg loads text = Inl (UnexpectedFormat m) \<longleftrightarrow>
     decode_reply msg loads (fence_stripped text) = Inl (UnexpectedFormat m)"
  by (auto simp: parse_reply_def split: sum.splits dest: curation_result_Inl)

lemmas decoder_defs = reference_loads_def U_def starts_def json_ws_def is_digit_def scan_number_def
  Let_def decimal_value_def int_max_str_digits_def

lemmas parser_defs = parse_reply_def decode_reply_def fence_stripped_def strip_def isspace_def
  strip_opening_fence_def strip_closing_fence_def drop_newline_def is_lower_def brace_span_def
  curation_result_def member_or_def

text \<open>
  Claim C5, as the code has it. Let the text of an object start with an opening brace, end
  with a closing brace and decode to the members \<open>members\<close>. The bare text parses to the
  result of these members, and so does the text in a fenced block whose info string is made
  of lower-case letters: the fences are stripped and the object is decoded directly. In
  general, with any text before the object (prose, or a fence line with any info string)
  and any text after it, the reply parses to the same result when the text before has no
  opening brace, the text after no closing brace, and decoding the fence-stripped reply as
  a whole either fails with \<^verbatim>\<open>JSONDecodeError\<close> or gives the object: in the first case the
  fallback takes the span from the first opening to the last closing brace of the reply,
  which is then the object. The result of an object takes \<^verbatim>\<open>AI Playlist\<close>, the empty
  list and the empty string for the missing keys, and every reply that parses at all parses
  to the result of some object.
\<close>

theorem C5_reply_forms_and_defaults:
  "(loads (123 # mid @ [125]) = Inr (JObj members) \<longrightarrow>
      parse_reply msg loads (123 # mid @ [125]) = curation_result (JObj members)
    \<and> (list_all is_lower tag \<longrightarrow>
         parse_reply msg loads ([96, 96, 96] @ tag @ [10] @ (123 # mid @ [125]) @ [10, 96, 96, 96])
           = curation_result (JObj members))
    \<and> (123 \<notin> set a \<and> 125 \<notin> set b \<and>
        (loads (fence_stripped (a @ 123 # mid @ 125 # b)) = Inl Malformed \<or>
         loads (fence_stripped (a @ 123 # mid @ 125 # b)) = Inr (JObj members)) \<longrightarrow>
         parse_reply msg loads (a @ 123 # mid @ 125 # b) = curation_result (JObj members)))
   \<and> curation_result (JObj members) =
        Inr (member_or members (U ''playlist_name'') (JStr (U ''AI Playlist'')),
             member_or members (U ''ids'') (JArr []),
             member_or members (U ''rationale'') (JStr []))
   \<and> (U ''playlist_name'' \<notin> fst ` set members \<longrightarrow>
        member_or members (U ''playlist_name'') (JStr (U ''AI Playlist'')) = JStr (U ''AI Playlist''))
   \<and> (U ''ids'' \<notin> fst ` set members \<longrightarrow> member_or members (U ''ids'') (JArr []) = JArr [])
   \<and> (U ''rationale'' \<notin> fst ` set members \<longrightarrow>
        member_or members (U ''rationale'') (JStr []) = JStr [])
   \<and> (parse_reply msg loads text = Inr r \<longrightarrow>
        (\<exists>members'. decode_reply msg loads (fence_stripped text) = Inr (JObj members') \<and>
           r = (member_or members' (U ''playlist_name'') (JStr (U ''AI Playlist'')),
                member_or members' (U ''ids'') (JArr []),
                member_or members' (U ''rationale'') (JStr []))))"
proof -
  let ?j = "123 # mid @ [125]"
  have bare: "parse_reply msg loads ?j = curation_result (JObj members)"
    if "loads ?j = Inr (JObj members)"
    using that by (simp add: parse_reply_def fence_stripped_bare decode_reply_direct)
  have fenced: "parse_reply msg loads ([96, 96, 96] @ tag @ [10] @ ?j @ [10, 96, 96, 96])
           = curation_result (JObj members)"
    if "loads ?j = Inr (JObj members)" and "list_all is_lower tag"
    using that(1) by (simp only: parse_reply_def fence_stripped_fenced [OF that(2)])
      (simp add: decode_reply_direct)
  have prose: "parse_reply msg loads (a @ 123 # mid @ 125 # b) = curation_result (JObj members)"
    if obj: "loads ?j = Inr (JObj members)" and a: "123 \<notin> set a" and b: "125 \<notin> set b"
      and bad: "loads (fence_stripped (a @ 123 # mid @ 125 # b)) = Inl Malformed"
  proof -
    from fence_stripped_prose [OF a, of mid b] obtain a' b'
      where fs: "fence_stripped (a @ 123 # mid @ 125 # b) = a' @ 123 # mid @ 125 # b'"
        and "set a' \<subseteq> set a" and "set b' \<subseteq> set b" by blast
    with a b have "123 \<notin> set a'" and "125 \<notin> set b'" by blast+
    then have span: "brace_span (a' @ 123 # mid @ 125 # b') = Some ?j"
      by (rule brace_span_found)
    from bad have "loads (a' @ 123 # mid @ 125 # b') = Inl Malformed" by (simp only: fs)
    from decode_reply_fallback [OF this span obj]
    show ?thesis by (simp add: parse_reply_def fs)
  qed
  have whole: "parse_reply msg loads (a @ 123 # mid @ 125 # b) = curation_result (JObj members)"
    if "loads (fence_stripped (a @ 123 # mid @ 125 # b)) = Inr (JObj members)"
    using that by (simp add: parse_reply_def decode_reply_direct)
  have any: "\<exists>members'. decode_reply msg loads (fence_stripped text) = Inr (JObj members') \<and>
           r = (member_or members' (U ''playlist_name'') (JStr (U ''AI Playlist'')),
                member_or members' (U ''ids'') (JArr []),
                member_or members' (U ''rationale'') (JStr []))"
    if "parse_reply msg loads text = Inr r"
  proof -
    from that obtain data where d: "decode_reply msg loads (fence_stripped text) = Inr data"
      and c: "curation_result data = Inr r"
      by (auto simp: parse_reply_def split: sum.splits)
    from curation_result_Inr [OF c] obtain members' where "data = JObj members'" by blast
    with d c show ?thesis by (simp add: curation_result_object)
  qed
  have p1: "loads ?j = Inr (JObj members) \<longrightarrow>
      parse_reply msg loads ?j = curation_result (JObj members)
    \<and> (list_all is_lower tag \<longrightarrow>
         parse_reply msg loads ([96, 96, 96] @ tag @ [10] @ ?j @ [10, 96, 96, 96])
           = curation_result (JObj members))
    \<and> (123 \<notin> set a \<and> 125 \<notin> set b \<and>
        (loads (fence_stripped (a @ 123 # mid @ 125 # b)) = Inl Malformed \<or>
         loads (fence_stripped (a @ 123 # mid @ 125 # b)) = Inr (JObj members)) \<longrightarrow>
         parse_reply msg loads (a @ 123 # mid @ 125 # b) = curation_result (JObj members))"
    using bare fenced prose whole by blast
  have p3: "U ''playlist_name'' \<notin> fst ` set members \<longrightarrow>
        member_or members (U ''playlist_name'') (JStr (U ''AI Playlist'')) = JStr (U ''AI Playlist'')"
    by (simp add: member_or_missing)
  have p4: "U ''ids'' \<notin> fst ` set members \<longrightarrow> member_or members (U ''ids'') (JArr []) = JArr []"
    by (simp add: member_or_missing)
  have p5: "U ''rationale'' \<notin> fst ` set members \<longrightarrow>
        member_or members (U ''rationale'') (JStr []) = JStr []"
    by (simp add: member_or_missing)
  have p6: "parse_reply msg loads text = Inr r \<longrightarrow>
        (\<exists>members'. decode_reply msg loads (fence_stripped text) = Inr (JObj members') \<and>
           r = (member_or members' (U ''playlist_name'') (JStr (U ''AI Playlist'')),
                member_or members' (U ''ids'') (JArr []),
                member_or members' (U ''rationale'') (JStr [])))"
    using any by blast
  from p1 curation_result_object [of members] p3 p4 p5 p6 show ?thesis
    by (intro conjI)
qed

theorem C5_reply_forms_and_defaults_witness:
  \<open>parse_reply (U ''Unexpected Claude response: '') reference_loads
      (U ''{"playlist_name":"Test","ids":[2,0,9],"rationale":"ok"}'')
     = Inr (JStr (U ''Test''), JArr [JInt 2, JInt 0, JInt 9], JStr (U ''ok''))
   \<and> parse_reply (U ''Unexpected Claude response: '') reference_loads
      (U ''```json\<newline>{"playlist_name":"Test","ids":[2,0,9],"rationale":"ok"}\<newline>```'')
     = Inr (JStr (U ''Test''), JArr [JInt 2, JInt 0, JInt 9], JStr (U ''ok''))
   \<and> parse_reply (U ''Unexpected Claude response: '') reference_loads
      (U ''```JSON\<newline>{"playlist_name":"Test","ids":[2,0,9],"rationale":"ok"}\<newline>```'')
     = Inr (JStr (U ''Test''), JArr [JInt 2, JInt 0, JInt 9], JStr (U ''ok''))
   \<and> parse_reply (U ''Unexpected Claude response: '') reference_loads
      (U ''Here is your playlist:\<newline>{"playlist_name":"Test","ids":[2,0,9],"rationale":"ok"}\<newline>Enjoy!'')
     = Inr (JStr (U ''Test''), JArr [JInt 2, JInt 0, JInt 9], JStr (U ''ok''))
   \<and> parse_reply (U ''Unexpected Claude response: '') reference_loads
      (U ''  {"playlist_name":"Test","ids":[2,0,9],"rationale":"ok"}\<newline>'')
     = Inr (JStr (U ''Test''), JArr [JInt 2, JInt 0, JInt 9], JStr (U ''ok''))
   \<and> parse_reply (U ''Unexpected Claude response: '') reference_loads (U ''{"ids":[1]}'')
     = Inr (JStr (U ''AI Playlist''), JArr [JInt 1], JStr [])\<close>
proof -
  let ?msg = "U ''Unexpected Claude response: ''"
  let ?mid = \<open>U ''"playlist_name":"Test","ids":[2,0,9],"rationale":"ok"''\<close>
  let ?members = "[(U ''playlist_name'', JStr (U ''Test'')),
      (U ''ids'', JArr [JInt 2, JInt 0, JInt 9]), (U ''rationale'', JStr (U ''ok''))]"
  let ?a = "U ''Here is your playlist:\<newline>''"
  let ?b = "U ''\<newline>Enjoy!''"
  let ?a2 = "U ''```JSON\<newline>''"
  let ?b2 = "U ''\<newline>```''"
  let ?a3 = "U ''  ''"
  let ?b3 = "U ''\<newline>''"
  have obj: "reference_loads (123 # ?mid @ [125]) = Inr (JObj ?members)"
    by (simp add: decoder_defs)
  have tag: "list_all is_lower (U ''json'')"
    by (simp add: is_lower_def U_def)
  have fs: "fence_stripped (?a @ 123 # ?mid @ 125 # ?b) = ?a @ 123 # ?mid @ 125 # ?b"
    by (simp add: fence_stripped_def strip_def isspace_def strip_opening_fence_def
        strip_closing_fence_def drop_newline_def U_def)
  have bad: "reference_loads (fence_stripped (?a @ 123 # ?mid @ 125 # ?b)) = Inl Malformed"
    unfolding fs by (simp add: decoder_defs)
  have ab: "123 \<notin> set ?a \<and> 125 \<notin> set ?b"
    by (simp add: U_def)
  have fs2: "fence_stripped (?a2 @ 123 # ?mid @ 125 # ?b2) = U ''JSON\<newline>'' @ 123 # ?mid @ [125]"
    by (simp add: fence_stripped_def strip_def isspace_def strip_opening_fence_def
        strip_closing_fence_def drop_newline_def is_lower_def U_def)
  have bad2: "reference_loads (fence_stripped (?a2 @ 123 # ?mid @ 125 # ?b2)) = Inl Malformed"
    unfolding fs2 by (simp add: decoder_defs)
  have ab2: "123 \<notin> set ?a2 \<and> 125 \<notin> set ?b2"
    by (simp add: U_def)
  have fs3: "fence_stripped (?a3 @ 123 # ?mid @ 125 # ?b3) = 123 # ?mid @ [125]"
    by (simp add: fence_stripped_def strip_def isspace_def strip_opening_fence_def
        strip_closing_fence_def drop_newline_def U_def)
  have good3: "reference_loads (fence_stripped (?a3 @ 123 # ?mid @ 125 # ?b3)) = Inr (JObj ?members)"
    unfolding fs3 by (rule obj)
  have ab3: "123 \<notin> set ?a3 \<and> 125 \<notin> set ?b3"
    by (simp add: U_def)
  have res: "curation_result (JObj ?members) =
      Inr (JStr (U ''Test''), JArr [JInt 2, JInt 0, JInt 9], JStr (U ''ok''))"
    by (simp add: curation_result_def member_or_def U_def)
  note inst = C5_reply_forms_and_defaults [of reference_loads ?mid ?members ?msg "U ''json''" ?a ?b]
  note inst2 = C5_reply_forms_and_defaults [of reference_loads ?mid ?members ?msg "U ''json''" ?a2 ?b2]
  note inst3 = C5_reply_forms_and_defaults [of reference_loads ?mid ?members ?msg "U ''json''" ?a3 ?b3]
  from inst obj have bare: "parse_reply ?msg reference_loads (123 # ?mid @ [125]) =
      curation_result (JObj ?members)"
    by blast
  from inst obj tag have fenced: "parse_reply ?msg reference_loads
      ([96, 96, 96] @ U ''json'' @ [10] @ (123 # ?mid @ [125]) @ [10, 96, 96, 96]) =
      curation_result (JObj ?members)"
    by blast
  from inst obj ab bad have prose: "parse_reply ?msg reference_loads (?a @ 123 # ?mid @ 125 # ?b) =
      curation_result (JObj ?members)"
    by blast
  from inst2 obj ab2 bad2 have upper: "parse_reply ?msg reference_loads
      (?a2 @ 123 # ?mid @ 125 # ?b2) = curation_result (JObj ?members)"
    by blast
  from inst3 obj ab3 good3 have blank: "parse_reply ?msg reference_loads
      (?a3 @ 123 # ?mid @ 125 # ?b3) = curation_result (JObj ?members)"
    by blast
  have dfl: \<open>parse_reply ?msg reference_loads (U ''{"ids":[1]}'')
     = Inr (JStr (U ''AI Playlist''), JArr [JInt 1], JStr [])\<close>
    by (simp add: parser_defs decoder_defs)
  from bare fenced upper prose blank dfl show ?thesis
    unfolding res by (simp add: U_def)
qed

text \<open>
  Without the conditions the claim fails: with a brace in the leading prose the span starts
  there, does not decode, and the reply does not parse; and an object between square
  brackets decodes as a whole, to an array, which has no \<^verbatim>\<open>get\<close>.
\<close>

theorem C5_brace_in_prose_counterexample:
  \<open>parse_reply (U ''Unexpected Claude response: '') reference_loads
      (U ''{"playlist_name":"T","ids":[1],"rationale":"r"}'')
     = Inr (JStr (U ''T''), JArr [JInt 1], JStr (U ''r''))
   \<and> parse_reply (U ''Unexpected Claude response: '') reference_loads
      (U ''As {requested}: {"playlist_name":"T","ids":[1],"rationale":"r"}'')
     = Inl JSONDecodeError
   \<and> parse_reply (U ''Unexpected Claude response: '') reference_loads
      (U ''[{"playlist_name":"T","ids":[1],"rationale":"r"}]'')
     = Inl AttributeError\<close>
  by (simp add: parser_defs decoder_defs)

text \<open>
  Claim C6, as the code has it. The parser raises its own \<^verbatim>\<open>ValueError\<close>, whose message
  ends with the fence-stripped reply, exactly when decoding that text fails with
  \<^verbatim>\<open>JSONDecodeError\<close> and the text has no opening brace with a closing brace after it.
  The other exceptions it can let escape are those of the decoder on the fallback span and
  of \<^verbatim>\<open>data.get\<close>.
\<close>

theorem C6_unexpected_format:
  "((parse_reply msg loads text = Inl (UnexpectedFormat m)) \<longleftrightarrow>
      (m = msg @ fence_stripped text \<and> loads (fence_stripped text) = Inl Malformed \<and>
       \<not> (\<exists>a mid b. fence_stripped text = a @ 123 # mid @ 125 # b)))
   \<and> (parse_reply msg loads text = Inl e \<longrightarrow>
        (\<exists>m'. e = UnexpectedFormat m') \<or> e = JSONDecodeError \<or> e = DecoderAborted \<or>
        e = AttributeError)"
proof (intro conjI impI)
  show "(parse_reply msg loads text = Inl (UnexpectedFormat m)) \<longleftrightarrow>
      (m = msg @ fence_stripped text \<and> loads (fence_stripped text) = Inl Malformed \<and>
       \<not> (\<exists>a mid b. fence_stripped text = a @ 123 # mid @ 125 # b))"
    by (simp only: parse_reply_unexpected decode_reply_unexpected brace_span_None)
next
  assume "parse_reply msg loads text = Inl e"
  then show "(\<exists>m'. e = UnexpectedFormat m') \<or> e = JSONDecodeError \<or> e = DecoderAborted \<or>
        e = AttributeError"
    by (auto simp: parse_reply_def decode_reply_def
        split: sum.splits decode_failure.splits option.splits dest: curation_result_Inl)
qed

theorem C6_unexpected_format_witness:
  \<open>parse_reply (U ''Unexpected Claude response: '') reference_loads (U ''  Sorry, I cannot help. '')
     = Inl (UnexpectedFormat (U ''Unexpected Claude response: Sorry, I cannot help.''))\<close>
proof -
  let ?msg = "U ''Unexpected Claude response: ''"
  let ?text = "U ''  Sorry, I cannot help. ''"
  have fs: "fence_stripped ?text = U ''Sorry, I cannot help.''"
    by (simp add: parser_defs U_def)
  have bad: "reference_loads (fence_stripped ?text) = Inl Malformed"
    unfolding fs by (simp add: decoder_defs)
  have "brace_span (fence_stripped ?text) = None"
    unfolding fs by (simp add: brace_span_def U_def)
  then have nb: "\<not> (\<exists>a mid b. fence_stripped ?text = a @ 123 # mid @ 125 # b)"
    by (rule iffD1 [OF brace_span_None])
  from C6_unexpected_format [of ?msg reference_loads ?text "?msg @ fence_stripped ?text"] bad nb
  have "parse_reply ?msg reference_loads ?text = Inl (UnexpectedFormat (?msg @ fence_stripped ?text))"
    by blast
  then show ?thesis
    unfolding fs by (simp add: U_def)
qed

text \<open>
  The claim as worded fails: a reply in braces that is not JSON has a span, the second
  decoding is not guarded and its \<^verbatim>\<open>JSONDecodeError\<close> escapes instead; and a reply that
  is a JSON array decodes but has no \<^verbatim>\<open>get\<close>, which raises \<^verbatim>\<open>AttributeError\<close>.
\<close>

theorem C6_other_failures_counterexample:
  \<open>reference_loads (U ''{oops}'') = Inl Malformed
   \<and> brace_span (U ''{oops}'') = Some (U ''{oops}'')
   \<and> parse_reply (U ''Unexpected Claude response: '') reference_loads (U ''{oops}'')
       = Inl JSONDecodeError
   \<and> parse_reply (U ''Unexpected Claude response: '') reference_loads (U ''[1, 2]'')
       = Inl AttributeError\<close>
  by (simp add: parser_defs decoder_defs)

end
